theory Spec2Isabelle
  imports Main "HOL-Library.Sublist" "HOL-Library.AList"
begin

section \<open>Strings and JavaScript values\<close>

text \<open>
  A JavaScript string is modelled as a \<^typ>\<open>string\<close> holding its UTF-8 bytes. The source
  only searches for ASCII substrings, lower-cases, and tests an ASCII character class, so on
  ASCII text the model is exact; \<open>toLowerCase\<close> is modelled on the letters A to Z only.
\<close>

definition toLowerCase :: "string \<Rightarrow> string" where
  "toLowerCase s =
     map (\<lambda>c. case map_of (zip ''ABCDEFGHIJKLMNOPQRSTUVWXYZ'' ''abcdefghijklmnopqrstuvwxyz'') c of
               Some l \<Rightarrow> l | None \<Rightarrow> c) s"

definition str_includes :: "string \<Rightarrow> string \<Rightarrow> bool" where
  \<comment> \<open>\<open>s.includes(k)\<close>\<close>
  "str_includes s k = sublist k s"

fun join :: "string \<Rightarrow> string list \<Rightarrow> string" where
  \<comment> \<open>\<open>xs.join(sep)\<close> on an array of strings\<close>
  "join sep [] = []"
| "join sep [x] = x"
| "join sep (x # y # ys) = x @ sep @ join sep (y # ys)"

definition digit_char :: "nat \<Rightarrow> char" where
  "digit_char d = ''0123456789'' ! d"

fun digits :: "nat \<Rightarrow> string" where
  "digits n = (if n < 10 then [digit_char n] else digits (n div 10) @ [digit_char (n mod 10)])"

declare digits.simps [simp del]

definition show_int :: "int \<Rightarrow> string" where
  "show_int i = (if i < 0 then ''-'' @ digits (nat (- i)) else digits (nat i))"

text \<open>
  The cells of a result row: null, numbers (integers here), strings, booleans, arrays, and
  objects. A node or relationship of the graph is an object with a field \<open>properties\<close>
  holding its property bag. \<open>VUndef\<close> is what reading an absent field gives.
\<close>

datatype jsval =
    VUndef
  | VNull
  | VBool bool
  | VNum int
  | VStr string
  | VArr "jsval list"
  | VObj "(string \<times> jsval) list"

fun truthy :: "jsval \<Rightarrow> bool" where
  "truthy VUndef = False"
| "truthy VNull = False"
| "truthy (VBool b) = b"
| "truthy (VNum n) = (n \<noteq> 0)"
| "truthy (VStr s) = (s \<noteq> [])"
| "truthy (VArr xs) = True"
| "truthy (VObj fs) = True"

fun js_prop :: "jsval \<Rightarrow> string \<Rightarrow> jsval" where
  \<comment> \<open>\<open>v.k\<close> for a value that is not null or undefined, and a name that is no built-in\<close>
  "js_prop (VObj fs) k = (case map_of fs k of Some x \<Rightarrow> x | None \<Rightarrow> VUndef)"
| "js_prop v k = VUndef"

fun toStr :: "jsval \<Rightarrow> string" where
  \<comment> \<open>the conversion a template literal applies; an object is a plain object\<close>
  "toStr VUndef = ''undefined''"
| "toStr VNull = ''null''"
| "toStr (VBool b) = (if b then ''true'' else ''false'')"
| "toStr (VNum n) = show_int n"
| "toStr (VStr s) = s"
| "toStr (VArr xs) =
     join '','' (map (\<lambda>x. case x of VUndef \<Rightarrow> [] | VNull \<Rightarrow> [] | _ \<Rightarrow> toStr x) xs)"
| "toStr (VObj fs) = ''[object Object]''"

definition arrayJoin :: "string \<Rightarrow> jsval list \<Rightarrow> string" where
  \<comment> \<open>\<open>xs.join(sep)\<close> on an array of values: null and undefined give the empty string\<close>
  "arrayJoin sep xs =
     join sep (map (\<lambda>x. case x of VUndef \<Rightarrow> [] | VNull \<Rightarrow> [] | _ \<Rightarrow> toStr x) xs)"

section \<open>Result rows of the database driver\<close>

text \<open>
  A row is a \<open>Record\<close> of the database driver: a sequence of column names with one cell
  each. Its method \<open>get\<close> raises when it is given a name that is no column of the row, or
  a position out of range; where a name occurs twice, the last occurrence is the one read.
\<close>

datatype error =
    NoSuchField string
  | NoSuchIndex nat
  | QueryError string
  | TranslatorError string

type_synonym row = "(string \<times> jsval) list"

record qresult =
  records :: "row list"

definition keys :: "row \<Rightarrow> string list" where
  "keys r = map fst r"

definition get :: "row \<Rightarrow> string \<Rightarrow> error + jsval" where
  "get r k = (case map_of (rev r) k of None \<Rightarrow> Inl (NoSuchField k) | Some v \<Rightarrow> Inr v)"

definition get_index :: "row \<Rightarrow> nat \<Rightarrow> error + jsval" where
  "get_index r i = (if i < length r then Inr (snd (r ! i)) else Inl (NoSuchIndex i))"

fun mapE :: "('a \<Rightarrow> error + 'b) \<Rightarrow> 'a list \<Rightarrow> error + 'b list" where
  \<comment> \<open>\<open>xs.map(f)\<close> where the callback may raise: the first exception leaves the map\<close>
  "mapE f [] = Inr []"
| "mapE f (x # xs) =
     (case f x of
        Inl e \<Rightarrow> Inl e
      | Inr y \<Rightarrow> (case mapE f xs of Inl e \<Rightarrow> Inl e | Inr ys \<Rightarrow> Inr (y # ys)))"

section \<open>formatResult\<close>

definition bullet :: string where
  \<comment> \<open>the character U+2022\<close>
  "bullet = [CHR 0xE2, CHR 0x80, CHR 0xA2]"

definition orElse :: "jsval \<Rightarrow> jsval \<Rightarrow> jsval" where
  \<comment> \<open>\<open>a || b\<close>\<close>
  "orElse a b = (if truthy a then a else b)"

definition named_item :: "row \<Rightarrow> error + string" where
  "named_item record =
     (case get record ''name'' of Inl e \<Rightarrow> Inl e | Inr n \<Rightarrow>
      case get record ''globalId'' of Inl e \<Rightarrow> Inl e | Inr g \<Rightarrow>
      case get record ''nid'' of Inl e \<Rightarrow> Inl e | Inr i \<Rightarrow>
        (let name = orElse n (VStr ''Unnamed'');
             globalId = orElse g (VStr '''');
             nid = orElse i (VStr '''')
         in Inr (bullet @ '' '' @ toStr name @
                 (if truthy globalId then '' (ID: '' @ toStr globalId @ '')''
                  else if truthy nid then '' (nid: '' @ toStr nid @ '')''
                  else ''''))))"

definition table_cell :: "jsval \<Rightarrow> jsval" where
  "table_cell v =
     (if truthy v \<and> truthy (js_prop v ''properties'') then js_prop v ''properties''
      else case v of VArr xs \<Rightarrow> VStr (arrayJoin '', '' xs) | _ \<Rightarrow> v)"

fun table_fill :: "row \<Rightarrow> string list \<Rightarrow> (string \<times> jsval) list \<Rightarrow> error + (string \<times> jsval) list" where
  \<comment> \<open>the \<open>forEach\<close> over the keys of a row, filling \<open>obj\<close>\<close>
  "table_fill record [] obj = Inr obj"
| "table_fill record (key # ks) obj =
     (case get record key of
        Inl e \<Rightarrow> Inl e
      | Inr v \<Rightarrow> table_fill record ks (AList.update key (table_cell v) obj))"

definition table_row :: "row \<Rightarrow> error + jsval" where
  "table_row record =
     (case table_fill record (keys record) [] of Inl e \<Rightarrow> Inl e | Inr obj \<Rightarrow> Inr (VObj obj))"

text \<open>
  \<open>stringify v\<close> stands for the library call \<open>JSON.stringify(v, null, 2)\<close>, which the
  last branch applies to the array of row objects. A result always has its \<open>records\<close>,
  so that \<open>result.records || []\<close> is \<open>result.records\<close>.
\<close>

definition formatResult :: "(jsval \<Rightarrow> string) \<Rightarrow> qresult \<Rightarrow> string \<Rightarrow> error + string" where
  "formatResult stringify result question =
     (case records result of
        [] \<Rightarrow> Inr ''No results found.''
      | first # rest \<Rightarrow>
          if length (records result) = 1 \<and> length (keys first) = 1 then
            (let key = hd (keys first) in
             case get_index first 0 of
               Inl e \<Rightarrow> Inl e
             | Inr v \<Rightarrow>
                 if str_includes (toLowerCase key) ''count''
                 then Inr (''Found '' @ toStr v @ '' item(s).'')
                 else Inr (''Result: '' @ toStr v))
          else
            (let maxRows = 10;
                 displayRecords = take maxRows (records result)
             in if ''name'' \<in> set (keys first) \<or> ''globalId'' \<in> set (keys first) then
                  (case mapE named_item displayRecords of
                     Inl e \<Rightarrow> Inl e
                   | Inr items \<Rightarrow>
                       Inr (''Found '' @ digits (length (records result)) @ '' result(s):\<newline>''
                            @ join ''\<newline>'' items
                            @ (if length (records result) > maxRows
                               then ''\<newline>... and '' @ digits (length (records result) - maxRows)
                                    @ '' more''
                               else '''')))
                else
                  (case mapE table_row displayRecords of
                     Inl e \<Rightarrow> Inl e
                   | Inr rows \<Rightarrow>
                       Inr (''Results ('' @ digits (length rows) @ ''/''
                            @ digits (length (records result)) @ ''):\<newline>''
                            @ stringify (VArr rows)))))"

definition has_columns :: "row \<Rightarrow> bool" where
  \<comment> \<open>the row has the three columns that the list rendering reads\<close>
  "has_columns r =
     (''name'' \<in> set (keys r) \<and> ''globalId'' \<in> set (keys r) \<and> ''nid'' \<in> set (keys r))"

section \<open>extractGlobalIds\<close>

text \<open>
  \<open>ids\<close> is a \<open>Set\<close>, kept here as the list of its elements in insertion order. A
  \<open>Set\<close> compares strings, numbers, booleans, null and undefined by value and objects by
  identity; every array or object read from a cell is an object of its own.
\<close>

fun is_primitive :: "jsval \<Rightarrow> bool" where
  "is_primitive (VArr xs) = False"
| "is_primitive (VObj fs) = False"
| "is_primitive v = True"

fun is_string :: "jsval \<Rightarrow> bool" where
  \<comment> \<open>\<open>typeof v === 'string'\<close>\<close>
  "is_string (VStr s) = True"
| "is_string v = False"

definition set_add :: "jsval \<Rightarrow> jsval list \<Rightarrow> jsval list" where
  "set_add v ids = (if is_primitive v \<and> v \<in> set ids then ids else ids @ [v])"

definition is_guid :: "string \<Rightarrow> bool" where
  \<comment> \<open>the test of the regular expression \<open>^[0-9A-Za-z_$-]{22}$\<close>\<close>
  "is_guid s =
     (length s = 22 \<and>
      list_all (\<lambda>c. c \<in> set ''0123456789ABCDEFGHIJKLMNOPQRSTUVWXYZabcdefghijklmnopqrstuvwxyz_$-'') s)"

definition bag_id :: "jsval \<Rightarrow> jsval" where
  \<comment> \<open>\<open>value.properties.GlobalId || value.properties.globalId\<close>\<close>
  "bag_id v =
     orElse (js_prop (js_prop v ''properties'') ''GlobalId'')
            (js_prop (js_prop v ''properties'') ''globalId'')"

definition extract_cell :: "string \<Rightarrow> jsval \<Rightarrow> jsval list \<Rightarrow> jsval list" where
  "extract_cell key v ids =
     (if str_includes (toLowerCase key) ''globalid'' \<and> is_string v then set_add v ids
      else
        (let ids1 =
               (if truthy v \<and> truthy (js_prop v ''properties'')
                then (if truthy (bag_id v) then set_add (bag_id v) ids else ids)
                else ids)
         in case v of
              VStr s \<Rightarrow> if is_guid s then set_add v ids1 else ids1
            | _ \<Rightarrow> ids1))"

fun extract_keys :: "row \<Rightarrow> string list \<Rightarrow> jsval list \<Rightarrow> error + jsval list" where
  "extract_keys record [] ids = Inr ids"
| "extract_keys record (key # ks) ids =
     (case get record key of
        Inl e \<Rightarrow> Inl e
      | Inr v \<Rightarrow> extract_keys record ks (extract_cell key v ids))"

fun extract_rows :: "row list \<Rightarrow> jsval list \<Rightarrow> error + jsval list" where
  "extract_rows [] ids = Inr ids"
| "extract_rows (record # rs) ids =
     (case extract_keys record (keys record) ids of
        Inl e \<Rightarrow> Inl e
      | Inr ids' \<Rightarrow> extract_rows rs ids')"

definition extractGlobalIds :: "row list \<Rightarrow> error + jsval list" where
  "extractGlobalIds recs = extract_rows recs []"

definition is_guid_value :: "jsval \<Rightarrow> bool" where
  \<comment> \<open>a string that the regular expression accepts\<close>
  "is_guid_value v = (case v of VStr s \<Rightarrow> is_guid s | _ \<Rightarrow> False)"

definition collected :: "string \<Rightarrow> jsval \<Rightarrow> jsval list \<Rightarrow> bool" where
  \<comment> \<open>what the cell \<open>v\<close> of column \<open>k\<close> contributes is among \<open>ids\<close>\<close>
  "collected k v ids =
     ((is_guid_value v \<longrightarrow> v \<in> set ids)
      \<and> (is_string v \<and> str_includes (toLowerCase k) ''globalid'' \<longrightarrow> v \<in> set ids)
      \<and> (truthy (js_prop v ''properties'') \<and> truthy (bag_id v) \<longrightarrow> bag_id v \<in> set ids))"

definition from_cell :: "jsval \<Rightarrow> jsval \<Rightarrow> bool" where
  \<comment> \<open>\<open>x\<close> is the string \<open>v\<close>, or the identifier of the property bag of \<open>v\<close>\<close>
  "from_cell v x =
     ((x = v \<and> is_string v) \<or> (x = bag_id v \<and> truthy (js_prop v ''properties'')))"

section \<open>The schema snapshot\<close>

record sample =
  nid :: jsval
  name :: jsval
  globalId :: jsval

record labelInfo =
  count :: int
  properties :: "string list"
  samples :: "sample list"

text \<open>
  The two objects of a snapshot are kept as association lists in the order of their keys.
\<close>

record snapshot =
  labels :: "(string \<times> labelInfo) list"
  relationships :: "(string \<times> int) list"

definition positive_counts :: "snapshot \<Rightarrow> bool" where
  "positive_counts s = list_all (\<lambda>(l, info). 0 < count info) (labels s)"

section \<open>generateSchemaHint\<close>

definition elementMappings :: "(string \<times> string list) list" where
  "elementMappings =
     [(''wall'', [''IfcWall'', ''IfcWallStandardCase'', ''IfcCurtainWall'']),
      (''door'', [''IfcDoor'']),
      (''window'', [''IfcWindow'']),
      (''slab'', [''IfcSlab'']),
      (''column'', [''IfcColumn'']),
      (''beam'', [''IfcBeam'']),
      (''space'', [''IfcSpace'']),
      (''room'', [''IfcSpace'']),
      (''floor'', [''IfcBuildingStorey'', ''IfcSlab'']),
      (''storey'', [''IfcBuildingStorey'']),
      (''building'', [''IfcBuilding'']),
      (''site'', [''IfcSite'']),
      (''project'', [''IfcProject'']),
      (''pipe'', [''IfcPipeSegment'', ''IfcPipeFitting'']),
      (''duct'', [''IfcDuctSegment'', ''IfcDuctFitting'']),
      (''equipment'', [''IfcDistributionElement'', ''IfcFlowTerminal''])]"

definition existingLabels :: "snapshot \<Rightarrow> string list" where
  "existingLabels schema = map fst (labels schema)"

fun collectMappings ::
  "string list \<Rightarrow> (string \<times> string list) list \<Rightarrow> (string \<times> string list) list
   \<Rightarrow> (string \<times> string list) list" where
  \<comment> \<open>the loop over the entries of \<open>elementMappings\<close>, filling \<open>actualMappings\<close>\<close>
  "collectMappings existing [] actual = actual"
| "collectMappings existing ((concept, possibleLabels) # rest) actual =
     (let foundLabels = filter (\<lambda>label. label \<in> set existing) possibleLabels
      in collectMappings existing rest
           (if length foundLabels > 0 then AList.update concept foundLabels actual else actual))"

definition actualMappings :: "snapshot \<Rightarrow> (string \<times> string list) list" where
  "actualMappings schema = collectMappings (existingLabels schema) elementMappings []"

definition label_line :: "string \<times> labelInfo \<Rightarrow> string" where
  "label_line e = ''- '' @ fst e @ '' ('' @ show_int (count (snd e)) @ '' nodes)''"

definition mapping_line :: "string \<times> string list \<Rightarrow> string" where
  "mapping_line e = ''- '' @ fst e @ '': '' @ join '' OR '' (snd e)"

definition relationship_names :: "snapshot \<Rightarrow> string list" where
  \<comment> \<open>\<open>Object.keys(relationships).slice(0, 10)\<close>\<close>
  "relationship_names schema = take 10 (map fst (relationships schema))"

definition hint_head :: string where
  "hint_head =
     ''You are a Cypher generator for a Neo4j graph built from an IFC file.\<newline>''
     @ ''\<newline>''
     @ ''AVAILABLE LABELS (with counts):\<newline>''"

definition hint_mappings :: string where
  "hint_mappings = ''\<newline>\<newline>COMMON ELEMENT MAPPINGS:\<newline>''"

definition hint_relationships :: string where
  "hint_relationships = ''\<newline>\<newline>RELATIONSHIP TYPES AVAILABLE:\<newline>''"

definition hint_tail :: string where
  \<open>hint_tail =
     ''\<newline>\<newline>COMMON PROPERTIES:\<newline>''
     @ ''- nid: unique node identifier (integer)\<newline>''
     @ ''- Name: element name (string)\<newline>''
     @ ''- GlobalId/globalId: IFC global identifier (string)\<newline>''
     @ ''- ObjectType: object type description (string)\<newline>''
     @ ''- LongName: longer descriptive name (string)\<newline>''
     @ ''\<newline>''
     @ ''QUERY GUIDELINES:\<newline>''
     @ ''1. When user asks about "walls", use: MATCH (n) WHERE any(label IN labels(n) WHERE label CONTAINS 'Wall')\<newline>''
     @ ''2. For counting, always use this flexible pattern for better results\<newline>''
     @ ''3. When listing items, return useful properties: name, globalId, nid\<newline>''
     @ ''4. Use coalesce() for name fields: coalesce(n.Name, n.ObjectType, n.LongName, 'Unnamed')\<newline>''
     @ ''5. For spatial queries, look for IfcSpace, IfcBuildingStorey, IfcBuilding, IfcSite\<newline>''
     @ ''6. Only output valid Cypher - no explanations\<newline>''
     @ ''7. Use LIMIT for listing queries to avoid overwhelming results\<newline>''
     @ ''\<newline>''
     @ ''EXAMPLES:\<newline>''
     @ ''Q: "How many walls are there?"\<newline>''
     @ ''A: MATCH (n) WHERE any(label IN labels(n) WHERE label CONTAINS 'Wall') RETURN count(n) AS count;\<newline>''
     @ ''\<newline>''
     @ ''Q: "List all doors with names"\<newline>''
     @ ''A: MATCH (n) WHERE any(label IN labels(n) WHERE label CONTAINS 'Door') RETURN coalesce(n.Name, n.ObjectType, 'Unnamed') AS name, coalesce(n.GlobalId, n.globalId, ''
     @ [CHR 0x27, CHR 0x27] @ '') AS globalId, n.nid AS nid LIMIT 20;\<newline>''
     @ ''\<newline>''
     @ ''Q: "What spaces are on the ground floor?"\<newline>''
     @ ''A: MATCH (space) WHERE any(label IN labels(space) WHERE label CONTAINS 'Space') MATCH (floor) WHERE any(label IN labels(floor) WHERE label CONTAINS 'Storey') RETURN coalesce(space.Name, space.LongName, 'Unnamed Space') AS spaceName LIMIT 10;\<newline>''\<close>

definition generateSchemaHint :: "snapshot \<Rightarrow> string" where
  "generateSchemaHint schema =
     hint_head @ join ''\<newline>'' (map label_line (labels schema))
     @ hint_mappings @ join ''\<newline>'' (map mapping_line (actualMappings schema))
     @ hint_relationships @ join '', '' (relationship_names schema)
     @ hint_tail"

section \<open>generateFallbackQueries\<close>

record concept =
  c_keywords :: "string list"
  c_labels :: "string list"

definition concepts :: "concept list" where
  "concepts =
     [\<lparr>c_keywords = [''wall'', ''walls''], c_labels = [''Wall'']\<rparr>,
      \<lparr>c_keywords = [''door'', ''doors''], c_labels = [''Door'']\<rparr>,
      \<lparr>c_keywords = [''window'', ''windows''], c_labels = [''Window'']\<rparr>,
      \<lparr>c_keywords = [''slab'', ''slabs'', ''floor'', ''floors''], c_labels = [''Slab'', ''Storey'']\<rparr>,
      \<lparr>c_keywords = [''column'', ''columns''], c_labels = [''Column'']\<rparr>,
      \<lparr>c_keywords = [''beam'', ''beams''], c_labels = [''Beam'']\<rparr>,
      \<lparr>c_keywords = [''space'', ''spaces'', ''room'', ''rooms''], c_labels = [''Space'']\<rparr>,
      \<lparr>c_keywords = [''building'', ''buildings''], c_labels = [''Building'']\<rparr>,
      \<lparr>c_keywords = [''pipe'', ''pipes''], c_labels = [''Pipe'']\<rparr>]"

record fallback =
  strategy :: string
  cypher :: string

definition wants_count :: "string \<Rightarrow> bool" where
  "wants_count lowerQuestion =
     (str_includes lowerQuestion ''how many'' \<or> str_includes lowerQuestion ''count'')"

definition wants_list :: "string \<Rightarrow> bool" where
  "wants_list lowerQuestion =
     (str_includes lowerQuestion ''list'' \<or> str_includes lowerQuestion ''show''
      \<or> str_includes lowerQuestion ''what'')"

definition concept_matches :: "string \<Rightarrow> concept \<Rightarrow> bool" where
  \<comment> \<open>\<open>concept.keywords.some(keyword => lowerQuestion.includes(keyword))\<close>\<close>
  "concept_matches lowerQuestion c = list_ex (\<lambda>keyword. str_includes lowerQuestion keyword) (c_keywords c)"

definition labelCondition :: "concept \<Rightarrow> string" where
  "labelCondition c =
     join '' OR '' (map (\<lambda>label. ''label CONTAINS '' @ [CHR 0x27] @ label @ [CHR 0x27]) (c_labels c))"

definition flexible :: "string \<Rightarrow> concept \<Rightarrow> fallback list" where
  \<comment> \<open>strategy 1: what the branch pushes\<close>
  "flexible lowerQuestion c =
     (if wants_count lowerQuestion then
        [\<lparr>strategy = ''count_'' @ toLowerCase (hd (c_labels c)),
          cypher = ''MATCH (n) WHERE any(label IN labels(n) WHERE '' @ labelCondition c
                   @ '') RETURN count(n) AS count''\<rparr>]
      else if wants_list lowerQuestion then
        [\<lparr>strategy = ''list_'' @ toLowerCase (hd (c_labels c)),
          cypher = ''MATCH (n) WHERE any(label IN labels(n) WHERE '' @ labelCondition c
                   @ '') RETURN coalesce(n.Name, n.ObjectType, n.LongName, 'Unnamed') AS name, coalesce(n.GlobalId, n.globalId, ''
                   @ [CHR 0x27, CHR 0x27] @ '') AS globalId, n.nid AS nid LIMIT 20''\<rparr>]
      else [])"

definition exact_candidate :: "string \<Rightarrow> string \<Rightarrow> fallback" where
  "exact_candidate lowerQuestion exactLabel =
     (if wants_count lowerQuestion then
        \<lparr>strategy = ''exact_count_'' @ exactLabel,
         cypher = ''MATCH (n:`'' @ exactLabel @ ''`) RETURN count(n) AS count''\<rparr>
      else
        \<lparr>strategy = ''exact_list_'' @ exactLabel,
         cypher = ''MATCH (n:`'' @ exactLabel
                  @ ''`) RETURN coalesce(n.Name, n.ObjectType, 'Unnamed') AS name, coalesce(n.GlobalId, n.globalId, ''
                  @ [CHR 0x27, CHR 0x27] @ '') AS globalId LIMIT 10''\<rparr>)"

fun exact :: "string \<Rightarrow> snapshot \<Rightarrow> string list \<Rightarrow> fallback list" where
  \<comment> \<open>strategy 2: the loop over \<open>concept.labels\<close>\<close>
  "exact lowerQuestion schema [] = []"
| "exact lowerQuestion schema (label # ls) =
     (let exactLabel = ''Ifc'' @ label
      in (if map_of (labels schema) exactLabel \<noteq> None
          then [exact_candidate lowerQuestion exactLabel] else [])
         @ exact lowerQuestion schema ls)"

fun scan_concepts :: "string \<Rightarrow> snapshot \<Rightarrow> concept list \<Rightarrow> fallback list" where
  \<comment> \<open>the loop over \<open>concepts\<close>, left by \<open>break\<close> at the first concept that matches\<close>
  "scan_concepts lowerQuestion schema [] = []"
| "scan_concepts lowerQuestion schema (c # cs) =
     (if concept_matches lowerQuestion c
      then flexible lowerQuestion c @ exact lowerQuestion schema (c_labels c)
      else scan_concepts lowerQuestion schema cs)"

definition general :: "string \<Rightarrow> fallback list" where
  "general lowerQuestion =
     (if wants_count lowerQuestion then
        [\<lparr>strategy = ''count_all_elements'',
          cypher = ''MATCH (n) WHERE any(label IN labels(n) WHERE label STARTS WITH 'Ifc') RETURN count(n) AS count''\<rparr>]
      else [])
     @ (if wants_list lowerQuestion then
          [\<lparr>strategy = ''show_labels'',
            cypher = ''MATCH (n) RETURN DISTINCT labels(n) AS node_types, count(n) AS count ORDER BY count DESC LIMIT 10''\<rparr>]
        else [])"

definition generateFallbackQueries :: "string \<Rightarrow> snapshot \<Rightarrow> fallback list" where
  "generateFallbackQueries question schema =
     (let lowerQuestion = toLowerCase question
      in scan_concepts lowerQuestion schema concepts @ general lowerQuestion)"

section \<open>discoverSchema\<close>

text \<open>
  The three discovery queries have fixed \<open>RETURN\<close> clauses, so the database is modelled by
  the typed rows it answers them with, or the error it raises: the labels with their counts,
  the sampled nodes of a label, and the relationship types with their counts. Opening and
  closing a session are taken not to raise.
\<close>

datatype query =
    LabelCounts
  | SampleNodes string
  | RelationshipCounts
  | Cypher string

datatype event =
    SessionOpen
  | Run query
  | Translate string
  | SessionClose

record sample_row =
  props :: "string list option"
  row_nid :: jsval
  row_name :: jsval
  row_globalId :: jsval

record discovery_db =
  label_counts :: "error + (string \<times> int) list"
  sample_nodes :: "string \<Rightarrow> error + sample_row list"
  relationship_counts :: "error + (string \<times> int) list"

record cache_state =
  schemaCache :: "snapshot option"
  schemaCacheTime :: int

definition CACHE_DURATION :: int where
  "CACHE_DURATION = 300000"

definition initial_cache :: cache_state where
  "initial_cache = \<lparr>schemaCache = None, schemaCacheTime = 0\<rparr>"

definition add_all :: "string list \<Rightarrow> string list \<Rightarrow> string list" where
  \<comment> \<open>\<open>props.forEach(p => properties.add(p))\<close> on a \<open>Set\<close> of strings\<close>
  "add_all ps acc0 = foldl (\<lambda>acc p. if p \<in> set acc then acc else acc @ [p]) acc0 ps"

fun sample_loop :: "sample_row list \<Rightarrow> string list \<times> sample list \<Rightarrow> string list \<times> sample list" where
  \<comment> \<open>the loop over \<open>propResult.records\<close>, filling \<open>properties\<close> and \<open>samples\<close>\<close>
  "sample_loop [] acc = acc"
| "sample_loop (propRecord # rest) (properties_acc, samples_acc) =
     sample_loop rest
       (add_all (case props propRecord of None \<Rightarrow> [] | Some ps \<Rightarrow> ps) properties_acc,
        samples_acc @ [\<lparr>nid = row_nid propRecord, name = row_name propRecord,
                         globalId = row_globalId propRecord\<rparr>])"

fun label_loop ::
  "(string \<Rightarrow> error + sample_row list) \<Rightarrow> (string \<times> int) list
   \<Rightarrow> (string \<times> labelInfo) list \<Rightarrow> event list
   \<Rightarrow> (error + (string \<times> labelInfo) list) \<times> event list" where
  \<comment> \<open>the loop over \<open>labelResult.records\<close>, filling \<open>labels\<close>\<close>
  "label_loop sn [] labels_acc ev = (Inr labels_acc, ev)"
| "label_loop sn ((label, cnt) # rest) labels_acc ev =
     (if cnt > 0 then
        (case sn label of
           Inl e \<Rightarrow> (Inl e, ev @ [Run (SampleNodes label)])
         | Inr propRecords \<Rightarrow>
             (let (properties_set, samples_all) = sample_loop propRecords ([], [])
              in label_loop sn rest
                   (AList.update label
                      \<lparr>count = cnt, properties = properties_set, samples = take 2 samples_all\<rparr>
                      labels_acc)
                   (ev @ [Run (SampleNodes label)])))
      else label_loop sn rest labels_acc ev)"

fun relationship_loop :: "(string \<times> int) list \<Rightarrow> (string \<times> int) list \<Rightarrow> (string \<times> int) list" where
  \<comment> \<open>the loop over \<open>relResult.records\<close>, filling \<open>relationships\<close>\<close>
  "relationship_loop [] rels_acc = rels_acc"
| "relationship_loop ((relType, cnt) # rest) rels_acc =
     relationship_loop rest
       (if cnt > 0 then AList.update relType cnt rels_acc else rels_acc)"

definition discover :: "discovery_db \<Rightarrow> (error + snapshot) \<times> event list" where
  \<comment> \<open>the body of the \<open>try\<close>, up to the assignment of the cache\<close>
  "discover db =
     (case label_counts db of
        Inl e \<Rightarrow> (Inl e, [Run LabelCounts])
      | Inr labelResult \<Rightarrow>
          (case label_loop (sample_nodes db) labelResult [] [Run LabelCounts] of
             (Inl e, ev) \<Rightarrow> (Inl e, ev)
           | (Inr labels_obj, ev) \<Rightarrow>
               (case relationship_counts db of
                  Inl e \<Rightarrow> (Inl e, ev @ [Run RelationshipCounts])
                | Inr relResult \<Rightarrow>
                    (Inr \<lparr>labels = labels_obj, relationships = relationship_loop relResult []\<rparr>,
                     ev @ [Run RelationshipCounts]))))"

definition fallbackSchema :: snapshot where
  "fallbackSchema =
     \<lparr>labels =
        [(''IfcWall'', \<lparr>count = 0, properties = [''nid'', ''Name'', ''GlobalId''], samples = []\<rparr>),
         (''IfcDoor'', \<lparr>count = 0, properties = [''nid'', ''Name'', ''GlobalId''], samples = []\<rparr>),
         (''IfcWindow'', \<lparr>count = 0, properties = [''nid'', ''Name'', ''GlobalId''], samples = []\<rparr>)],
      relationships = []\<rparr>"

definition cache_fresh :: "int \<Rightarrow> cache_state \<Rightarrow> bool" where
  \<comment> \<open>\<open>schemaCache && (now - schemaCacheTime) < CACHE_DURATION\<close>\<close>
  "cache_fresh now st = (schemaCache st \<noteq> None \<and> now - schemaCacheTime st < CACHE_DURATION)"

definition discoverSchema ::
  "int \<Rightarrow> discovery_db \<Rightarrow> cache_state \<Rightarrow> snapshot \<times> cache_state \<times> event list" where
  \<comment> \<open>\<open>now\<close> is the value of \<open>Date.now()\<close>; the events are those of this call, in order\<close>
  "discoverSchema now db st =
     (case (if cache_fresh now st then schemaCache st else None) of
        Some cached \<Rightarrow> (cached, st, [])
      | None \<Rightarrow>
          (case discover db of
             (Inr schema, ev) \<Rightarrow>
               (schema, \<lparr>schemaCache = Some schema, schemaCacheTime = now\<rparr>,
                SessionOpen # ev @ [SessionClose])
           | (Inl e, ev) \<Rightarrow> (fallbackSchema, st, SessionOpen # ev @ [SessionClose])))"

definition cache_ok :: "cache_state \<Rightarrow> bool" where
  \<comment> \<open>the cached snapshot, if any, has no label without nodes\<close>
  "cache_ok st = (case schemaCache st of None \<Rightarrow> True | Some cached \<Rightarrow> positive_counts cached)"

fun is_session_event :: "event \<Rightarrow> bool" where
  "is_session_event SessionOpen = True"
| "is_session_event SessionClose = True"
| "is_session_event e = False"

section \<open>processQuery\<close>

text \<open>
  The translator is a function from the prompt to the content of its first choice (\<open>None\<close>
  when the response has none), or the error the call raises. The database answers the
  \<open>n\<close>-th query of the session with a result or raises an error.
\<close>

definition is_space :: "char \<Rightarrow> bool" where
  "is_space c = (c \<in> set [CHR '' '', CHR 0x09, CHR 0x0A, CHR 0x0B, CHR 0x0C, CHR 0x0D])"

definition trim :: "string \<Rightarrow> string" where
  \<comment> \<open>\<open>s.trim()\<close>, on the ASCII white space\<close>
  "trim s = rev (dropWhile is_space (rev (dropWhile is_space s)))"

definition drop_newline :: "string \<Rightarrow> string" where
  "drop_newline s = (case s of [] \<Rightarrow> [] | c # cs \<Rightarrow> if c = CHR 0x0A then cs else s)"

function remove_all :: "string \<Rightarrow> string \<Rightarrow> string" where
  \<comment> \<open>the global replacement of a literal, non-empty \<open>pat\<close> and a newline after it, if any\<close>
  "remove_all pat s =
     (if pat = [] \<or> s = [] then s
      else if prefix pat s then remove_all pat (drop_newline (drop (length pat) s))
      else hd s # remove_all pat (tl s))"
  by pat_completeness auto
termination
proof (relation "measure (\<lambda>(pat, s). length s)")
  show "wf (measure (\<lambda>(pat, s). length s))" by simp
next
  fix pat s :: string
  assume "\<not> (pat = [] \<or> s = [])" "prefix pat s"
  then have "length (drop (length pat) s) < length s" by (cases pat) auto
  moreover have "length (drop_newline t) \<le> length t" for t
    by (cases t) (simp_all add: drop_newline_def)
  then have "length (drop_newline (drop (length pat) s)) \<le> length (drop (length pat) s)" .
  ultimately show "((pat, drop_newline (drop (length pat) s)), (pat, s)) \<in> measure (\<lambda>(pat, s). length s)"
    by simp
next
  fix pat s :: string
  assume "\<not> (pat = [] \<or> s = [])"
  then show "((pat, tl s), (pat, s)) \<in> measure (\<lambda>(pat, s). length s)"
    by (cases s) auto
qed

declare remove_all.simps [simp del]

definition clean :: "string \<Rightarrow> string" where
  "clean content = trim (remove_all ''```'' (remove_all ''```cypher'' (trim content)))"

record attempt =
  attempt_cypher :: string
  source :: string

record query_vars =
  cur_cypher :: string
  cur_result :: "qresult option"
  cur_attempts :: "attempt list"

record resolution =
  out_cypher :: string
  out_result :: qresult
  out_attempts :: "attempt list"

definition ultimate_fallback :: string where
  "ultimate_fallback = ''MATCH (n) RETURN count(n) AS total_count''"

fun fallback_loop ::
  "(nat \<Rightarrow> string \<Rightarrow> error + qresult) \<Rightarrow> nat \<Rightarrow> fallback list \<Rightarrow> query_vars \<Rightarrow> event list
   \<Rightarrow> query_vars \<times> event list \<times> nat" where
  \<comment> \<open>the loop over \<open>fallbacks\<close>, left by \<open>break\<close> at the first query that runs\<close>
  "fallback_loop run n [] vars ev = (vars, ev, n)"
| "fallback_loop run n (fb # fbs) vars ev =
     (let vars1 = vars\<lparr>cur_attempts :=
                    cur_attempts vars @ [\<lparr>attempt_cypher = cypher fb, source = strategy fb\<rparr>]\<rparr>
      in case run n (cypher fb) of
           Inr r \<Rightarrow>
             (vars1\<lparr>cur_result := Some r, cur_cypher := cypher fb\<rparr>,
              ev @ [Run (Cypher (cypher fb))], Suc n)
         | Inl fallbackError \<Rightarrow>
             fallback_loop run (Suc n) fbs vars1 (ev @ [Run (Cypher (cypher fb))]))"

definition after_generated ::
  "(nat \<Rightarrow> string \<Rightarrow> error + qresult) \<Rightarrow> string \<Rightarrow> snapshot \<Rightarrow> query_vars \<Rightarrow> event list
   \<Rightarrow> (error + resolution) \<times> event list" where
  \<comment> \<open>what follows the attempt on the generated query: the fallbacks, then the ultimate one\<close>
  "after_generated run question schema vars ev =
     (case fallback_loop run 1 (generateFallbackQueries question schema) vars ev of
        (vars1, ev1, n) \<Rightarrow>
          (case cur_result vars1 of
             Some r \<Rightarrow>
               (Inr \<lparr>out_cypher = cur_cypher vars1, out_result = r,
                      out_attempts = cur_attempts vars1\<rparr>, ev1)
           | None \<Rightarrow>
               (case run n ultimate_fallback of
                  Inl e \<Rightarrow> (Inl e, ev1 @ [Run (Cypher ultimate_fallback)])
                | Inr r \<Rightarrow>
                    (Inr \<lparr>out_cypher = ultimate_fallback, out_result = r,
                           out_attempts = cur_attempts vars1
                             @ [\<lparr>attempt_cypher = ultimate_fallback,
                                  source = ''ultimate_fallback''\<rparr>]\<rparr>,
                     ev1 @ [Run (Cypher ultimate_fallback)]))))"

definition make_prompt :: "snapshot \<Rightarrow> string \<Rightarrow> string" where
  \<open>make_prompt schema question =
     generateSchemaHint schema @ ''\<newline>Q: "'' @ question @ ''"\<newline>A:''\<close>

definition resolve ::
  "(string \<Rightarrow> error + string option) \<Rightarrow> (nat \<Rightarrow> string \<Rightarrow> error + qresult) \<Rightarrow> string \<Rightarrow> snapshot
   \<Rightarrow> (error + resolution) \<times> event list" where
  \<comment> \<open>the body of the \<open>try\<close>\<close>
  "resolve translate run question schema =
     (let prompt = make_prompt schema question
      in case translate prompt of
           Inl e \<Rightarrow> (Inl e, [Translate prompt])
         | Inr content \<Rightarrow>
             (let cypher0 = clean (case content of None \<Rightarrow> [] | Some c \<Rightarrow> c);
                  attempts0 = [\<lparr>attempt_cypher = cypher0, source = ''AI''\<rparr>];
                  ev = [Translate prompt, Run (Cypher cypher0)]
              in case run 0 cypher0 of
                   Inr r \<Rightarrow>
                     if length (records r) > 0
                     then (Inr \<lparr>out_cypher = cypher0, out_result = r, out_attempts = attempts0\<rparr>, ev)
                     else after_generated run question schema
                            \<lparr>cur_cypher = cypher0, cur_result = Some r, cur_attempts = attempts0\<rparr> ev
                 | Inl aiError \<Rightarrow>
                     after_generated run question schema
                       \<lparr>cur_cypher = cypher0, cur_result = None, cur_attempts = attempts0\<rparr> ev))"

definition processQuery ::
  "(string \<Rightarrow> error + string option) \<Rightarrow> (nat \<Rightarrow> string \<Rightarrow> error + qresult) \<Rightarrow> string \<Rightarrow> snapshot
   \<Rightarrow> (error + resolution) \<times> event list" where
  \<comment> \<open>the session is opened before the \<open>try\<close> and closed in its \<open>finally\<close>\<close>
  "processQuery translate run question schema =
     (case resolve translate run question schema of
        (res, ev) \<Rightarrow> (res, SessionOpen # ev @ [SessionClose]))"

section \<open>Collaborators and inputs of the examples\<close>

definition translator_limit0 :: "string \<Rightarrow> error + string option" where
  \<comment> \<open>a translator whose query is valid and matches nothing\<close>
  "translator_limit0 prompt = Inr (Some ''MATCH (n) RETURN n LIMIT 0'')"

definition only_first_runs :: "nat \<Rightarrow> string \<Rightarrow> error + qresult" where
  \<comment> \<open>a database that answers the first query with no rows and rejects every later one\<close>
  "only_first_runs n q =
     (if n = 0 then Inr \<lparr>records = []\<rparr> else Inl (QueryError ''rejected''))"

definition always_empty :: "nat \<Rightarrow> string \<Rightarrow> error + qresult" where
  \<comment> \<open>a database that answers every query with no rows\<close>
  "always_empty n q = Inr \<lparr>records = []\<rparr>"

definition door_schema :: snapshot where
  "door_schema =
     \<lparr>labels = [(''IfcDoor'', \<lparr>count = 2, properties = [''Name''], samples = []\<rparr>)],
      relationships = []\<rparr>"

definition storey_schema :: snapshot where
  \<comment> \<open>a snapshot with two labels and eleven relationship types\<close>
  "storey_schema =
     \<lparr>labels =
        [(''IfcSlab'', \<lparr>count = 12, properties = [''Name''], samples = []\<rparr>),
         (''Zone'', \<lparr>count = 3, properties = [], samples = []\<rparr>)],
      relationships =
        [(''R1'', 11), (''R2'', 10), (''R3'', 9), (''R4'', 8), (''R5'', 7), (''R6'', 6),
         (''R7'', 5), (''R8'', 4), (''R9'', 3), (''R10'', 2), (''R11'', 1)]\<rparr>"

definition db_unavailable :: discovery_db where
  \<comment> \<open>a database whose discovery queries all raise\<close>
  "db_unavailable =
     \<lparr>label_counts = Inl (QueryError ''no procedure''),
      sample_nodes = (\<lambda>label. Inl (QueryError ''no procedure'')),
      relationship_counts = Inl (QueryError ''no procedure'')\<rparr>"

definition db_doors :: discovery_db where
  \<comment> \<open>a graph with two doors, a label without nodes and one relationship type\<close>
  "db_doors =
     \<lparr>label_counts = Inr [(''IfcDoor'', 2), (''IfcWall'', 0)],
      sample_nodes =
        (\<lambda>label. Inr [\<lparr>props = Some [''Name'', ''GlobalId''], row_nid = VNum 1,
                         row_name = VStr ''Door A'', row_globalId = VStr []\<rparr>]),
      relationship_counts = Inr [(''CONTAINS'', 2)]\<rparr>"

section \<open>Properties of formatResult\<close>

lemma get_Inr: "k \<in> set (keys r) \<Longrightarrow> \<exists>v. get r k = Inr v"
proof -
  assume "k \<in> set (keys r)"
  then have "k \<in> fst ` set (rev r)" by (simp add: keys_def)
  then obtain v where "map_of (rev r) k = Some v"
    by (metis domD dom_map_of_conv_image_fst)
  then show ?thesis by (simp add: get_def)
qed

lemma named_item_ok:
  assumes "has_columns r"
  shows "\<exists>s. named_item r = Inr (bullet @ s)"
proof -
  obtain n where n: "get r ''name'' = Inr n"
    using assms get_Inr [of "''name''" r] by (auto simp: has_columns_def)
  obtain g where g: "get r ''globalId'' = Inr g"
    using assms get_Inr [of "''globalId''" r] by (auto simp: has_columns_def)
  obtain i where i: "get r ''nid'' = Inr i"
    using assms get_Inr [of "''nid''" r] by (auto simp: has_columns_def)
  from n g i show ?thesis by (simp add: named_item_def Let_def)
qed

lemma mapE_named_item:
  "list_all has_columns rs \<Longrightarrow>
   \<exists>items. mapE named_item rs = Inr items \<and> length items = length rs
           \<and> list_all (prefix bullet) items"
proof (induction rs)
  case Nil
  then show ?case by simp
next
  case (Cons r rs)
  then have "\<exists>items. mapE named_item rs = Inr items \<and> length items = length rs
                    \<and> list_all (prefix bullet) items"
    by simp
  then obtain items where it: "mapE named_item rs = Inr items" "length items = length rs"
      "list_all (prefix bullet) items"
    by blast
  from Cons.prems have "has_columns r" by simp
  then obtain s where "named_item r = Inr (bullet @ s)"
    using named_item_ok by blast
  with it show ?case by simp
qed

lemma mapE_replicate: "f x = Inr y \<Longrightarrow> mapE f (replicate n x) = Inr (replicate n y)"
  by (induction n) auto

lemma digits_15: "digits 15 = ''15''"
  by (simp add: digits.simps digit_char_def)

lemma digits_5: "digits 5 = ''5''"
  by (simp add: digits.simps digit_char_def)

lemma formatResult_named_list:
  assumes "length rs = 15"
    and "''name'' \<in> set (keys (hd rs)) \<or> ''globalId'' \<in> set (keys (hd rs))"
    and "mapE named_item (take 10 rs) = Inr items"
  shows "formatResult js \<lparr>records = rs\<rparr> q =
           Inr (''Found 15 result(s):\<newline>'' @ join ''\<newline>'' items @ ''\<newline>... and 5 more'')"
proof -
  from assms(1) obtain r rest where rs: "rs = r # rest" by (cases rs) auto
  with assms show ?thesis
    by (simp add: formatResult_def Let_def digits_15 digits_5)
qed

lemma named_item_a:
  "named_item [(''name'', VStr ''a''), (''globalId'', VStr []), (''nid'', VNull)]
     = Inr (bullet @ '' a'')"
  by (simp add: named_item_def get_def orElse_def)

lemma named_item_door:
  "named_item [(''name'', VStr ''Door''), (''globalId'', VStr ''g''), (''nid'', VNum 7)]
     = Inr (bullet @ '' Door (ID: g)'')"
  by (simp add: named_item_def get_def orElse_def)

text \<open>
  The rows that the exact listing candidates ask for have the columns \<open>name\<close> and
  \<open>globalId\<close> only: on two such rows the rendering of the list raises at the column
  \<open>nid\<close>.
\<close>

lemma formatResult_missing_column:
  "formatResult js
     \<lparr>records = [[(''name'', VStr ''Door A''), (''globalId'', VStr ''g1'')],
                 [(''name'', VStr ''Door B''), (''globalId'', VStr ''g2'')]]\<rparr> q
     = Inl (NoSuchField ''nid'')"
  by (simp add: formatResult_def keys_def named_item_def get_def)

lemma not_suffix_append:
  "length xs \<le> length zs \<Longrightarrow> \<not> suffix xs zs \<Longrightarrow> \<not> suffix xs (ys @ zs)"
  by (auto simp: suffix_append)

text \<open>
  Claim C4, as amended. For a result without rows \<open>formatResult\<close> returns the text
  \<open>No results found.\<close>; for one row with the single column \<open>k\<close>, where the lower-cased
  \<open>k\<close> contains \<open>count\<close>, and the value 5 it returns \<open>Found 5 item(s).\<close>; for 15 rows
  of which the ten displayed ones have the columns \<open>name\<close>, \<open>globalId\<close> and \<open>nid\<close> it
  returns the line \<open>Found 15 result(s):\<close>, then exactly ten entries, each starting with a
  bullet and separated by newlines, then a newline and the text \<open>... and 5 more\<close>, with a
  space after the dots.
\<close>

theorem formatResult_examples:
  "formatResult js \<lparr>records = []\<rparr> q = Inr ''No results found.''
   \<and> (str_includes (toLowerCase k) ''count'' \<longrightarrow>
        formatResult js \<lparr>records = [[(k, VNum 5)]]\<rparr> q = Inr ''Found 5 item(s).'')
   \<and> (length rs = 15 \<and> list_all has_columns (take 10 rs) \<longrightarrow>
        (\<exists>items. mapE named_item (take 10 rs) = Inr items \<and> length items = 10
             \<and> list_all (prefix bullet) items
             \<and> formatResult js \<lparr>records = rs\<rparr> q =
                 Inr (''Found 15 result(s):\<newline>'' @ join ''\<newline>'' items
                      @ ''\<newline>... and 5 more'')))"
proof (intro conjI impI)
  show "formatResult js \<lparr>records = []\<rparr> q = Inr ''No results found.''"
    by (simp add: formatResult_def)
next
  assume "str_includes (toLowerCase k) ''count''"
  then show "formatResult js \<lparr>records = [[(k, VNum 5)]]\<rparr> q = Inr ''Found 5 item(s).''"
    by (simp add: formatResult_def keys_def get_index_def show_int_def digits_5)
next
  assume a: "length rs = 15 \<and> list_all has_columns (take 10 rs)"
  then obtain items where it: "mapE named_item (take 10 rs) = Inr items"
      "length items = length (take 10 rs)" "list_all (prefix bullet) items"
    using mapE_named_item [of "take 10 rs"] by blast
  from a obtain r rest where rs: "rs = r # rest" by (cases rs) auto
  with a have "has_columns (hd rs)" by simp
  then have "''name'' \<in> set (keys (hd rs)) \<or> ''globalId'' \<in> set (keys (hd rs))"
    by (simp add: has_columns_def)
  with it a have fr: "formatResult js \<lparr>records = rs\<rparr> q =
      Inr (''Found 15 result(s):\<newline>'' @ join ''\<newline>'' items @ ''\<newline>... and 5 more'')"
    using formatResult_named_list [of rs items js q] by simp
  from it a have "length items = 10" by simp
  with it fr show "\<exists>items. mapE named_item (take 10 rs) = Inr items \<and> length items = 10
             \<and> list_all (prefix bullet) items
             \<and> formatResult js \<lparr>records = rs\<rparr> q =
                 Inr (''Found 15 result(s):\<newline>'' @ join ''\<newline>'' items
                      @ ''\<newline>... and 5 more'')"
    by blast
qed

text \<open>
  The theorem at a count column named \<open>total_count\<close> and at 15 equal rows of a door: the
  hypotheses hold there and the two texts are the ones stated.
\<close>

theorem formatResult_examples_witness:
  "str_includes (toLowerCase ''total_count'') ''count''
   \<and> formatResult toStr \<lparr>records = [[(''total_count'', VNum 5)]]\<rparr> ''how many doors''
       = Inr ''Found 5 item(s).''
   \<and> length (replicate 15 [(''name'', VStr ''Door''), (''globalId'', VStr ''g''), (''nid'', VNum 7)]) = 15
   \<and> list_all has_columns
        (take 10 (replicate 15 [(''name'', VStr ''Door''), (''globalId'', VStr ''g''), (''nid'', VNum 7)]))
   \<and> formatResult toStr
        \<lparr>records = replicate 15 [(''name'', VStr ''Door''), (''globalId'', VStr ''g''), (''nid'', VNum 7)]\<rparr>
        ''list doors''
       = Inr (''Found 15 result(s):\<newline>''
              @ join ''\<newline>'' (replicate 10 (bullet @ '' Door (ID: g)''))
              @ ''\<newline>... and 5 more'')"
proof -
  have inc: "str_includes (toLowerCase ''total_count'') ''count''"
    by (simp add: str_includes_def toLowerCase_def sublist_code)
  have cols: "list_all has_columns
        (take 10 (replicate 15 [(''name'', VStr ''Door''), (''globalId'', VStr ''g''), (''nid'', VNum 7)]))"
    by (simp add: list_all_iff has_columns_def keys_def)
  have items: "mapE named_item
        (take 10 (replicate 15 [(''name'', VStr ''Door''), (''globalId'', VStr ''g''), (''nid'', VNum 7)]))
      = Inr (replicate 10 (bullet @ '' Door (ID: g)''))"
    using mapE_replicate [of named_item, OF named_item_door, of 10] by simp
  show ?thesis
    using inc cols items
      formatResult_examples [of toStr "''how many doors''" "''total_count''"
        "replicate 15 [(''name'', VStr ''Door''), (''globalId'', VStr ''g''), (''nid'', VNum 7)]"]
      formatResult_examples [of toStr "''list doors''" "''total_count''"
        "replicate 15 [(''name'', VStr ''Door''), (''globalId'', VStr ''g''), (''nid'', VNum 7)]"]
    by simp
qed

text \<open>
  Claim C4 as stated fails: on 15 rows with the three columns the text that is returned ends
  with \<open>... and 5 more\<close>, and so does not end with \<open>...and 5 more\<close>.
\<close>

theorem formatResult_suffix_counterexample:
  "formatResult toStr
     \<lparr>records = replicate 15 [(''name'', VStr ''a''), (''globalId'', VStr []), (''nid'', VNull)]\<rparr>
     ''list''
     = Inr (''Found 15 result(s):\<newline>'' @ join ''\<newline>'' (replicate 10 (bullet @ '' a''))
            @ ''\<newline>... and 5 more'')
   \<and> \<not> suffix ''...and 5 more''
         (''Found 15 result(s):\<newline>'' @ join ''\<newline>'' (replicate 10 (bullet @ '' a''))
          @ ''\<newline>... and 5 more'')"
proof
  have "mapE named_item
          (take 10 (replicate 15 [(''name'', VStr ''a''), (''globalId'', VStr []), (''nid'', VNull)]))
        = Inr (replicate 10 (bullet @ '' a''))"
    using mapE_replicate [of named_item, OF named_item_a, of 10] by simp
  then show "formatResult toStr
     \<lparr>records = replicate 15 [(''name'', VStr ''a''), (''globalId'', VStr []), (''nid'', VNull)]\<rparr>
     ''list''
     = Inr (''Found 15 result(s):\<newline>'' @ join ''\<newline>'' (replicate 10 (bullet @ '' a''))
            @ ''\<newline>... and 5 more'')"
    by (intro formatResult_named_list) (simp_all add: keys_def)
next
  have "\<not> suffix ''...and 5 more'' ''\<newline>... and 5 more''"
    by (simp add: suffix_to_prefix)
  then have "\<not> suffix ''...and 5 more''
       ((''Found 15 result(s):\<newline>'' @ join ''\<newline>'' (replicate 10 (bullet @ '' a'')))
        @ ''\<newline>... and 5 more'')"
    by (intro not_suffix_append) simp_all
  then show "\<not> suffix ''...and 5 more''
         (''Found 15 result(s):\<newline>'' @ join ''\<newline>'' (replicate 10 (bullet @ '' a''))
          @ ''\<newline>... and 5 more'')"
    by simp
qed

text \<open>
  Claim C10. The text that \<open>formatResult\<close> returns, or the error it raises, depends on the
  result only: any two questions give the same outcome.
\<close>

theorem formatResult_ignores_question:
  "formatResult js result q1 = formatResult js result q2"
  by (simp add: formatResult_def)

section \<open>Properties of extractGlobalIds\<close>

lemma set_set_add: "set (set_add v ids) = insert v (set ids)"
  by (auto simp: set_add_def)

lemma nodup_set_add:
  "distinct (filter is_primitive ids) \<Longrightarrow> distinct (filter is_primitive (set_add v ids))"
  by (auto simp: set_add_def)

lemma extract_cell_mono: "set ids \<subseteq> set (extract_cell k v ids)"
  by (cases v) (auto simp: extract_cell_def Let_def set_set_add)

lemma extract_cell_nodup:
  "distinct (filter is_primitive ids) \<Longrightarrow> distinct (filter is_primitive (extract_cell k v ids))"
  by (cases v) (simp_all add: extract_cell_def Let_def nodup_set_add)

lemma truthy_properties_obj: "truthy (js_prop v p) \<Longrightarrow> \<exists>fs. v = VObj fs"
  by (cases v) simp_all

lemma extract_cell_collected: "collected k v (extract_cell k v ids)"
proof -
  have a: "is_guid_value v \<longrightarrow> v \<in> set (extract_cell k v ids)"
    by (cases v) (auto simp: is_guid_value_def extract_cell_def Let_def set_set_add)
  have b: "is_string v \<and> str_includes (toLowerCase k) ''globalid'' \<longrightarrow> v \<in> set (extract_cell k v ids)"
    by (simp add: extract_cell_def set_set_add)
  have c: "truthy (js_prop v ''properties'') \<and> truthy (bag_id v)
           \<longrightarrow> bag_id v \<in> set (extract_cell k v ids)"
  proof
    assume h: "truthy (js_prop v ''properties'') \<and> truthy (bag_id v)"
    then obtain fs where "v = VObj fs" using truthy_properties_obj by blast
    with h show "bag_id v \<in> set (extract_cell k v ids)"
      by (simp add: extract_cell_def Let_def set_set_add)
  qed
  from a b c show ?thesis by (simp add: collected_def)
qed

lemma collected_mono: "collected k v ids \<Longrightarrow> set ids \<subseteq> set ids' \<Longrightarrow> collected k v ids'"
  by (auto simp: collected_def)

lemma extract_cell_origin:
  "x \<in> set (extract_cell k v ids) \<Longrightarrow> x \<in> set ids \<or> from_cell v x"
  by (cases v) (auto simp: extract_cell_def Let_def set_set_add from_cell_def split: if_splits)

lemma extract_keys_total:
  "set ks \<subseteq> set (keys r) \<Longrightarrow> \<exists>ids'. extract_keys r ks ids = Inr ids'"
proof (induction ks arbitrary: ids)
  case Nil
  then show ?case by simp
next
  case (Cons k ks)
  then obtain v where "get r k = Inr v" using get_Inr [of k r] by auto
  with Cons show ?case by simp
qed

lemma extract_keys_mono:
  "extract_keys r ks ids = Inr ids' \<Longrightarrow> set ids \<subseteq> set ids'"
proof (induction ks arbitrary: ids)
  case Nil
  then show ?case by simp
next
  case (Cons k ks)
  then obtain v where v: "get r k = Inr v" and
      rest: "extract_keys r ks (extract_cell k v ids) = Inr ids'"
    by (auto split: sum.splits)
  from Cons.IH [OF rest] extract_cell_mono [of ids k v] show ?case by blast
qed

lemma extract_keys_nodup:
  "extract_keys r ks ids = Inr ids' \<Longrightarrow> distinct (filter is_primitive ids)
   \<Longrightarrow> distinct (filter is_primitive ids')"
proof (induction ks arbitrary: ids)
  case Nil
  then show ?case by simp
next
  case (Cons k ks)
  then obtain v where v: "get r k = Inr v" and
      rest: "extract_keys r ks (extract_cell k v ids) = Inr ids'"
    by (auto split: sum.splits)
  from Cons.IH [OF rest] extract_cell_nodup [OF Cons.prems(2)] show ?case by blast
qed

lemma extract_keys_collected:
  "extract_keys r ks ids = Inr ids' \<Longrightarrow> k \<in> set ks \<Longrightarrow> get r k = Inr v
   \<Longrightarrow> collected k v ids'"
proof (induction ks arbitrary: ids)
  case Nil
  then show ?case by simp
next
  case (Cons k' ks)
  then obtain v' where v': "get r k' = Inr v'" and
      rest: "extract_keys r ks (extract_cell k' v' ids) = Inr ids'"
    by (auto split: sum.splits)
  show ?case
  proof (cases "k = k'")
    case True
    with v' Cons.prems have "v' = v" by simp
    with True extract_cell_collected [of k v ids] extract_keys_mono [OF rest]
    show ?thesis using collected_mono by blast
  next
    case False
    with Cons.prems have "k \<in> set ks" by simp
    from Cons.IH [OF rest this Cons.prems(3)] show ?thesis .
  qed
qed

lemma extract_keys_origin:
  "extract_keys r ks ids = Inr ids' \<Longrightarrow> x \<in> set ids'
   \<Longrightarrow> x \<in> set ids \<or> (\<exists>k\<in>set ks. \<exists>v. get r k = Inr v \<and> from_cell v x)"
proof (induction ks arbitrary: ids)
  case Nil
  then show ?case by simp
next
  case (Cons k' ks)
  then obtain v' where v': "get r k' = Inr v'" and
      rest: "extract_keys r ks (extract_cell k' v' ids) = Inr ids'"
    by (auto split: sum.splits)
  from Cons.IH [OF rest Cons.prems(2)]
  consider "x \<in> set (extract_cell k' v' ids)"
    | "\<exists>k\<in>set ks. \<exists>v. get r k = Inr v \<and> from_cell v x" by blast
  then show ?case
  proof cases
    case 1
    with extract_cell_origin [of x k' v' ids] v' show ?thesis by auto
  next
    case 2
    then show ?thesis by auto
  qed
qed

lemma extract_rows_total: "\<exists>ids'. extract_rows rs ids = Inr ids'"
proof (induction rs arbitrary: ids)
  case Nil
  then show ?case by simp
next
  case (Cons r rs)
  obtain ids1 where "extract_keys r (keys r) ids = Inr ids1"
    using extract_keys_total [of "keys r" r ids] by auto
  with Cons show ?case by simp
qed

lemma extract_rows_mono: "extract_rows rs ids = Inr ids' \<Longrightarrow> set ids \<subseteq> set ids'"
proof (induction rs arbitrary: ids)
  case Nil
  then show ?case by simp
next
  case (Cons r rs)
  then obtain ids1 where k: "extract_keys r (keys r) ids = Inr ids1"
      and rest: "extract_rows rs ids1 = Inr ids'"
    by (auto split: sum.splits)
  from Cons.IH [OF rest] extract_keys_mono [OF k] show ?case by blast
qed

lemma extract_rows_nodup:
  "extract_rows rs ids = Inr ids' \<Longrightarrow> distinct (filter is_primitive ids)
   \<Longrightarrow> distinct (filter is_primitive ids')"
proof (induction rs arbitrary: ids)
  case Nil
  then show ?case by simp
next
  case (Cons r rs)
  then obtain ids1 where k: "extract_keys r (keys r) ids = Inr ids1"
      and rest: "extract_rows rs ids1 = Inr ids'"
    by (auto split: sum.splits)
  from Cons.IH [OF rest] extract_keys_nodup [OF k Cons.prems(2)] show ?case by blast
qed

lemma extract_rows_collected:
  "extract_rows rs ids = Inr ids' \<Longrightarrow> r \<in> set rs \<Longrightarrow> k \<in> set (keys r) \<Longrightarrow> get r k = Inr v
   \<Longrightarrow> collected k v ids'"
proof (induction rs arbitrary: ids)
  case Nil
  then show ?case by simp
next
  case (Cons r' rs)
  then obtain ids1 where k: "extract_keys r' (keys r') ids = Inr ids1"
      and rest: "extract_rows rs ids1 = Inr ids'"
    by (auto split: sum.splits)
  from Cons.prems(2) consider "r = r'" | "r \<in> set rs" by auto
  then show ?case
  proof cases
    case 1
    with k Cons.prems have "collected k v ids1"
      using extract_keys_collected by blast
    with extract_rows_mono [OF rest] show ?thesis using collected_mono by blast
  next
    case 2
    from Cons.IH [OF rest 2 Cons.prems(3) Cons.prems(4)] show ?thesis .
  qed
qed

lemma extract_rows_origin:
  "extract_rows rs ids = Inr ids' \<Longrightarrow> x \<in> set ids'
   \<Longrightarrow> x \<in> set ids \<or> (\<exists>r\<in>set rs. \<exists>k\<in>set (keys r). \<exists>v. get r k = Inr v \<and> from_cell v x)"
proof (induction rs arbitrary: ids)
  case Nil
  then show ?case by simp
next
  case (Cons r' rs)
  then obtain ids1 where k: "extract_keys r' (keys r') ids = Inr ids1"
      and rest: "extract_rows rs ids1 = Inr ids'"
    by (auto split: sum.splits)
  from Cons.IH [OF rest Cons.prems(2)]
  consider "x \<in> set ids1"
    | "\<exists>r\<in>set rs. \<exists>k\<in>set (keys r). \<exists>v. get r k = Inr v \<and> from_cell v x" by blast
  then show ?case
  proof cases
    case 1
    from extract_keys_origin [OF k 1] show ?thesis by auto
  next
    case 2
    then show ?thesis by auto
  qed
qed

lemma count_list_le_1:
  "distinct (filter is_primitive ids) \<Longrightarrow> is_primitive x \<Longrightarrow> count_list ids x \<le> 1"
proof (induction ids)
  case Nil
  then show ?case by simp
next
  case (Cons a ids)
  show ?case
  proof (cases "a = x")
    case True
    with Cons.prems have "x \<notin> set ids" by auto
    then have "count_list ids x = 0" by simp
    with True show ?thesis by simp
  next
    case False
    with Cons show ?thesis by (auto split: if_splits)
  qed
qed

text \<open>
  Claim C7, as amended. \<open>extractGlobalIds\<close> always returns, and in the collection it
  returns no string, number or boolean occurs twice. For every cell of every row: a string
  that the 22-character pattern accepts is collected whatever its column; a string in a
  column whose lower-cased name contains \<open>globalid\<close> is collected; and for a cell with a
  truthy \<open>properties\<close> field the value \<open>properties.GlobalId || properties.globalId\<close>
  is collected when it is truthy. Every element of the collection is such a string cell or
  such a property value, which is collected unchanged whatever its type. A string that the
  pattern accepts and that stands in a cell occurs exactly once.
\<close>

theorem extractGlobalIds_collects:
  "\<exists>ids. extractGlobalIds rs = Inr ids
     \<and> distinct (filter is_primitive ids)
     \<and> (\<forall>r\<in>set rs. \<forall>k\<in>set (keys r). \<forall>v. get r k = Inr v \<longrightarrow> collected k v ids)
     \<and> (\<forall>x\<in>set ids. \<exists>r\<in>set rs. \<exists>k\<in>set (keys r). \<exists>v. get r k = Inr v \<and> from_cell v x)
     \<and> (\<forall>r\<in>set rs. \<forall>k\<in>set (keys r). \<forall>s. get r k = Inr (VStr s) \<and> is_guid s
           \<longrightarrow> count_list ids (VStr s) = 1)"
proof -
  obtain ids where ids: "extract_rows rs [] = Inr ids"
    using extract_rows_total by blast
  have d: "distinct (filter is_primitive ids)"
    using extract_rows_nodup [OF ids] by simp
  have c: "\<forall>r\<in>set rs. \<forall>k\<in>set (keys r). \<forall>v. get r k = Inr v \<longrightarrow> collected k v ids"
    using extract_rows_collected [OF ids] by blast
  have "\<And>x. x \<in> set ids \<Longrightarrow>
          \<exists>r\<in>set rs. \<exists>k\<in>set (keys r). \<exists>v. get r k = Inr v \<and> from_cell v x"
    using extract_rows_origin [OF ids] by fastforce
  then have f: "\<forall>x\<in>set ids. \<exists>r\<in>set rs. \<exists>k\<in>set (keys r). \<exists>v. get r k = Inr v \<and> from_cell v x"
    by blast
  have n: "\<forall>r\<in>set rs. \<forall>k\<in>set (keys r). \<forall>s. get r k = Inr (VStr s) \<and> is_guid s
             \<longrightarrow> count_list ids (VStr s) = 1"
  proof (intro ballI allI impI)
    fix r k s
    assume r: "r \<in> set rs" and k: "k \<in> set (keys r)"
      and g: "get r k = Inr (VStr s) \<and> is_guid s"
    from c r k g have "collected k (VStr s) ids" by blast
    with g have "VStr s \<in> set ids" by (simp add: collected_def is_guid_value_def)
    then have "count_list ids (VStr s) \<noteq> 0" by (simp add: count_list_0_iff)
    moreover have "count_list ids (VStr s) \<le> 1" using count_list_le_1 [OF d] by simp
    ultimately show "count_list ids (VStr s) = 1" by simp
  qed
  from ids d c f n show ?thesis
    unfolding extractGlobalIds_def by blast
qed

lemma is_guid_example: "is_guid ''1a2b3c4d5e6f7g8h9i0jkl''"
  by (simp add: is_guid_def)

lemma extract_example:
  "extractGlobalIds
     [[(''globalId'', VStr ''1a2b3c4d5e6f7g8h9i0jkl''), (''tag'', VStr ''1a2b3c4d5e6f7g8h9i0jkl'')],
      [(''n'', VObj [(''properties'', VObj [(''GlobalId'', VStr ''door-7'')])])]]
     = Inr [VStr ''1a2b3c4d5e6f7g8h9i0jkl'', VStr ''door-7'']"
  by (simp add: extractGlobalIds_def keys_def get_def extract_cell_def Let_def set_add_def
      str_includes_def toLowerCase_def sublist_code is_guid_example is_guid_def
      bag_id_def orElse_def)

text \<open>
  The theorem at two rows: one with the same 22-character identifier in the columns
  \<open>globalId\<close> and \<open>tag\<close>, one with a node whose property bag has a \<open>GlobalId\<close>. The
  identifier is returned once, before the one of the node.
\<close>

theorem extractGlobalIds_collects_witness:
  "get [(''globalId'', VStr ''1a2b3c4d5e6f7g8h9i0jkl''), (''tag'', VStr ''1a2b3c4d5e6f7g8h9i0jkl'')] ''tag''
     = Inr (VStr ''1a2b3c4d5e6f7g8h9i0jkl'')
   \<and> is_guid ''1a2b3c4d5e6f7g8h9i0jkl''
   \<and> extractGlobalIds
       [[(''globalId'', VStr ''1a2b3c4d5e6f7g8h9i0jkl''), (''tag'', VStr ''1a2b3c4d5e6f7g8h9i0jkl'')],
        [(''n'', VObj [(''properties'', VObj [(''GlobalId'', VStr ''door-7'')])])]]
       = Inr [VStr ''1a2b3c4d5e6f7g8h9i0jkl'', VStr ''door-7'']
   \<and> count_list [VStr ''1a2b3c4d5e6f7g8h9i0jkl'', VStr ''door-7''] (VStr ''1a2b3c4d5e6f7g8h9i0jkl'') = 1"
  using extractGlobalIds_collects
    [of "[[(''globalId'', VStr ''1a2b3c4d5e6f7g8h9i0jkl''), (''tag'', VStr ''1a2b3c4d5e6f7g8h9i0jkl'')],
          [(''n'', VObj [(''properties'', VObj [(''GlobalId'', VStr ''door-7'')])])]]"]
    extract_example is_guid_example
  by (simp add: get_def)

text \<open>
  Claim C7 as stated fails: the identifier of a property bag is collected when it is truthy,
  also when it is no string. A node whose \<open>GlobalId\<close> is the number 42 gives a collection
  that holds a number.
\<close>

theorem extractGlobalIds_number_counterexample:
  "extractGlobalIds [[(''n'', VObj [(''properties'', VObj [(''GlobalId'', VNum 42)])])]]
     = Inr [VNum 42]
   \<and> \<not> is_string (VNum 42)"
  by (simp add: extractGlobalIds_def keys_def get_def extract_cell_def Let_def set_add_def
      str_includes_def toLowerCase_def sublist_code bag_id_def orElse_def)

section \<open>Properties of generateFallbackQueries\<close>

lemma scan_first_match:
  "list_all (\<lambda>p. \<not> concept_matches lq p) pre \<Longrightarrow> concept_matches lq c \<Longrightarrow>
   scan_concepts lq s (pre @ c # post) = flexible lq c @ exact lq s (c_labels c)"
  by (induction pre) auto

lemma scan_no_match:
  "list_all (\<lambda>p. \<not> concept_matches lq p) cs \<Longrightarrow> scan_concepts lq s cs = []"
  by (induction cs) auto

lemma exact_elements:
  "f \<in> set (exact lq s ls) \<Longrightarrow>
   \<exists>l\<in>set ls. map_of (labels s) (''Ifc'' @ l) \<noteq> None \<and> f = exact_candidate lq (''Ifc'' @ l)"
  by (induction ls) (auto simp: Let_def split: if_splits)

lemma flexible_length: "length (flexible lq c) \<le> 1"
  by (simp add: flexible_def)

lemma lower_doors: "toLowerCase ''list all doors with names'' = ''list all doors with names''"
  by (simp add: toLowerCase_def)

lemma scan_doors:
  "scan_concepts ''list all doors with names'' s concepts
     = flexible ''list all doors with names'' \<lparr>c_keywords = [''door'', ''doors''], c_labels = [''Door'']\<rparr>
       @ exact ''list all doors with names'' s [''Door'']"
  by (simp add: concepts_def concept_matches_def str_includes_def sublist_code)

lemma wants_doors:
  "\<not> wants_count ''list all doors with names'' \<and> wants_list ''list all doors with names''"
  by (simp add: wants_count_def wants_list_def str_includes_def sublist_code)

lemma doors_example:
  assumes "map_of (labels s) ''IfcDoor'' \<noteq> None"
  shows "generateFallbackQueries ''list all doors with names'' s =
      [\<lparr>strategy = ''list_door'',
        cypher = ''MATCH (n) WHERE any(label IN labels(n) WHERE label CONTAINS '' @ [CHR 0x27]
                 @ ''Door'' @ [CHR 0x27]
                 @ '') RETURN coalesce(n.Name, n.ObjectType, n.LongName, 'Unnamed') AS name, coalesce(n.GlobalId, n.globalId, ''
                 @ [CHR 0x27, CHR 0x27] @ '') AS globalId, n.nid AS nid LIMIT 20''\<rparr>,
       \<lparr>strategy = ''exact_list_IfcDoor'',
        cypher = ''MATCH (n:`IfcDoor`) RETURN coalesce(n.Name, n.ObjectType, 'Unnamed') AS name, coalesce(n.GlobalId, n.globalId, ''
                 @ [CHR 0x27, CHR 0x27] @ '') AS globalId LIMIT 10''\<rparr>,
       \<lparr>strategy = ''show_labels'',
        cypher = ''MATCH (n) RETURN DISTINCT labels(n) AS node_types, count(n) AS count ORDER BY count DESC LIMIT 10''\<rparr>]"
proof -
  have "toLowerCase ''Door'' = ''door''" by (simp add: toLowerCase_def)
  with assms wants_doors show ?thesis
    by (simp add: generateFallbackQueries_def lower_doors scan_doors flexible_def
        exact_candidate_def general_def labelCondition_def)
qed

text \<open>
  Claim C6. \<open>generateFallbackQueries\<close> is a function of the question and the snapshot.
  The scan of \<open>concepts\<close> stops at the first concept one of whose keywords occurs in the
  lower-cased question: the candidates are then the flexible candidate of that concept (at
  most one, a match on a part of the label), followed by its exact candidates (one for each
  of its labels \<open>l\<close> such that \<open>Ifc\<close>\<open>l\<close> is a label of the snapshot), followed by the
  general candidates; later concepts contribute nothing. When no concept matches, only the
  general candidates are returned. For the question \<open>list all doors with names\<close> and a
  snapshot with the label \<open>IfcDoor\<close> the candidates are \<open>list_door\<close>, then
  \<open>exact_list_IfcDoor\<close>, then \<open>show_labels\<close>.
\<close>

theorem generateFallbackQueries_order:
  "(concepts = pre @ c # post
      \<and> list_all (\<lambda>p. \<not> concept_matches (toLowerCase q) p) pre
      \<and> concept_matches (toLowerCase q) c
    \<longrightarrow> generateFallbackQueries q s =
          flexible (toLowerCase q) c @ exact (toLowerCase q) s (c_labels c)
          @ general (toLowerCase q))
   \<and> (list_all (\<lambda>p. \<not> concept_matches (toLowerCase q) p) concepts
      \<longrightarrow> generateFallbackQueries q s = general (toLowerCase q))
   \<and> length (flexible (toLowerCase q) c) \<le> 1
   \<and> (\<forall>f\<in>set (exact (toLowerCase q) s ls).
         \<exists>l\<in>set ls. map_of (labels s) (''Ifc'' @ l) \<noteq> None
                     \<and> f = exact_candidate (toLowerCase q) (''Ifc'' @ l))
   \<and> (map_of (labels s) ''IfcDoor'' \<noteq> None \<longrightarrow>
        generateFallbackQueries ''list all doors with names'' s =
          [\<lparr>strategy = ''list_door'',
            cypher = ''MATCH (n) WHERE any(label IN labels(n) WHERE label CONTAINS '' @ [CHR 0x27]
                 @ ''Door'' @ [CHR 0x27]
                 @ '') RETURN coalesce(n.Name, n.ObjectType, n.LongName, 'Unnamed') AS name, coalesce(n.GlobalId, n.globalId, ''
                 @ [CHR 0x27, CHR 0x27] @ '') AS globalId, n.nid AS nid LIMIT 20''\<rparr>,
           \<lparr>strategy = ''exact_list_IfcDoor'',
            cypher = ''MATCH (n:`IfcDoor`) RETURN coalesce(n.Name, n.ObjectType, 'Unnamed') AS name, coalesce(n.GlobalId, n.globalId, ''
                 @ [CHR 0x27, CHR 0x27] @ '') AS globalId LIMIT 10''\<rparr>,
           \<lparr>strategy = ''show_labels'',
            cypher = ''MATCH (n) RETURN DISTINCT labels(n) AS node_types, count(n) AS count ORDER BY count DESC LIMIT 10''\<rparr>])"
proof (intro conjI impI)
  assume "concepts = pre @ c # post
      \<and> list_all (\<lambda>p. \<not> concept_matches (toLowerCase q) p) pre
      \<and> concept_matches (toLowerCase q) c"
  then have "scan_concepts (toLowerCase q) s concepts =
          flexible (toLowerCase q) c @ exact (toLowerCase q) s (c_labels c)"
    using scan_first_match [of "toLowerCase q" pre c s post] by simp
  then show "generateFallbackQueries q s =
          flexible (toLowerCase q) c @ exact (toLowerCase q) s (c_labels c)
          @ general (toLowerCase q)"
    by (simp add: generateFallbackQueries_def Let_def)
next
  assume "list_all (\<lambda>p. \<not> concept_matches (toLowerCase q) p) concepts"
  then show "generateFallbackQueries q s = general (toLowerCase q)"
    by (simp add: generateFallbackQueries_def Let_def scan_no_match)
next
  show "length (flexible (toLowerCase q) c) \<le> 1"
    by (rule flexible_length)
next
  show "\<forall>f\<in>set (exact (toLowerCase q) s ls).
         \<exists>l\<in>set ls. map_of (labels s) (''Ifc'' @ l) \<noteq> None
                     \<and> f = exact_candidate (toLowerCase q) (''Ifc'' @ l)"
    using exact_elements by blast
next
  assume "map_of (labels s) ''IfcDoor'' \<noteq> None"
  then show "generateFallbackQueries ''list all doors with names'' s =
          [\<lparr>strategy = ''list_door'',
            cypher = ''MATCH (n) WHERE any(label IN labels(n) WHERE label CONTAINS '' @ [CHR 0x27]
                 @ ''Door'' @ [CHR 0x27]
                 @ '') RETURN coalesce(n.Name, n.ObjectType, n.LongName, 'Unnamed') AS name, coalesce(n.GlobalId, n.globalId, ''
                 @ [CHR 0x27, CHR 0x27] @ '') AS globalId, n.nid AS nid LIMIT 20''\<rparr>,
           \<lparr>strategy = ''exact_list_IfcDoor'',
            cypher = ''MATCH (n:`IfcDoor`) RETURN coalesce(n.Name, n.ObjectType, 'Unnamed') AS name, coalesce(n.GlobalId, n.globalId, ''
                 @ [CHR 0x27, CHR 0x27] @ '') AS globalId LIMIT 10''\<rparr>,
           \<lparr>strategy = ''show_labels'',
            cypher = ''MATCH (n) RETURN DISTINCT labels(n) AS node_types, count(n) AS count ORDER BY count DESC LIMIT 10''\<rparr>]"
    by (rule doors_example)
qed

lemma lower_how_many: "toLowerCase ''How many doors?'' = ''how many doors?''"
  by (simp add: toLowerCase_def)

lemma lower_hello: "toLowerCase ''hello'' = ''hello''"
  by (simp add: toLowerCase_def)

lemma concepts_split:
  "concepts = [\<lparr>c_keywords = [''wall'', ''walls''], c_labels = [''Wall'']\<rparr>]
     @ \<lparr>c_keywords = [''door'', ''doors''], c_labels = [''Door'']\<rparr> # drop 2 concepts"
  by (simp add: concepts_def)

text \<open>
  The theorem at the snapshot with the one label \<open>IfcDoor\<close>: the question
  \<open>How many doors?\<close> passes the concept of walls and stops at that of doors, and the
  question \<open>hello\<close> matches no concept and has no general candidate.
\<close>

theorem generateFallbackQueries_order_witness:
  "list_all (\<lambda>p. \<not> concept_matches (toLowerCase ''How many doors?'') p)
      [\<lparr>c_keywords = [''wall'', ''walls''], c_labels = [''Wall'']\<rparr>]
   \<and> concept_matches (toLowerCase ''How many doors?'')
        \<lparr>c_keywords = [''door'', ''doors''], c_labels = [''Door'']\<rparr>
   \<and> map strategy (generateFallbackQueries ''How many doors?'' door_schema)
       = [''count_door'', ''exact_count_IfcDoor'', ''count_all_elements'']
   \<and> list_all (\<lambda>p. \<not> concept_matches (toLowerCase ''hello'') p) concepts
   \<and> generateFallbackQueries ''hello'' door_schema = []
   \<and> map_of (labels door_schema) ''IfcDoor'' \<noteq> None
   \<and> map strategy (generateFallbackQueries ''list all doors with names'' door_schema)
       = [''list_door'', ''exact_list_IfcDoor'', ''show_labels'']"
proof -
  have a: "list_all (\<lambda>p. \<not> concept_matches (toLowerCase ''How many doors?'') p)
      [\<lparr>c_keywords = [''wall'', ''walls''], c_labels = [''Wall'']\<rparr>]"
    by (simp add: lower_how_many concept_matches_def str_includes_def sublist_code)
  have b: "concept_matches (toLowerCase ''How many doors?'')
        \<lparr>c_keywords = [''door'', ''doors''], c_labels = [''Door'']\<rparr>"
    by (simp add: lower_how_many concept_matches_def str_includes_def sublist_code)
  have c: "list_all (\<lambda>p. \<not> concept_matches (toLowerCase ''hello'') p) concepts"
    by (simp add: lower_hello concepts_def concept_matches_def str_includes_def sublist_code)
  have d: "map_of (labels door_schema) ''IfcDoor'' \<noteq> None"
    by (simp add: door_schema_def)
  have e: "wants_count ''how many doors?''"
    by (simp add: wants_count_def str_includes_def sublist_code)
  have f: "\<not> wants_count ''hello'' \<and> \<not> wants_list ''hello''"
    by (simp add: wants_count_def wants_list_def str_includes_def sublist_code)
  have g: "toLowerCase ''Door'' = ''door''" by (simp add: toLowerCase_def)
  have h: "\<not> wants_list ''how many doors?''"
    by (simp add: wants_list_def str_includes_def sublist_code)
  have r1: "generateFallbackQueries ''How many doors?'' door_schema =
      flexible ''how many doors?'' \<lparr>c_keywords = [''door'', ''doors''], c_labels = [''Door'']\<rparr>
      @ exact ''how many doors?'' door_schema [''Door''] @ general ''how many doors?''"
    using generateFallbackQueries_order
        [of "[\<lparr>c_keywords = [''wall'', ''walls''], c_labels = [''Wall'']\<rparr>]"
            "\<lparr>c_keywords = [''door'', ''doors''], c_labels = [''Door'']\<rparr>"
            "drop 2 concepts" "''How many doors?''" door_schema "[]"]
      a b concepts_split
    by (simp add: lower_how_many)
  have r2: "generateFallbackQueries ''hello'' door_schema = general ''hello''"
    using generateFallbackQueries_order
        [of "[]" "\<lparr>c_keywords = [], c_labels = []\<rparr>" "[]" "''hello''" door_schema "[]"] c
    by (simp add: lower_hello)
  have r3: "map strategy (generateFallbackQueries ''list all doors with names'' door_schema)
       = [''list_door'', ''exact_list_IfcDoor'', ''show_labels'']"
    using generateFallbackQueries_order
        [of "[]" "\<lparr>c_keywords = [], c_labels = []\<rparr>" "[]" "''hello''" door_schema "[]"] d
    by simp
  have s1: "map strategy (generateFallbackQueries ''How many doors?'' door_schema)
       = [''count_door'', ''exact_count_IfcDoor'', ''count_all_elements'']"
    using e g h d by (simp add: r1 flexible_def general_def exact_candidate_def)
  have s2: "generateFallbackQueries ''hello'' door_schema = []"
    using f by (simp add: r2 general_def)
  from a b c d s1 s2 r3 show ?thesis by simp
qed

section \<open>Properties of generateSchemaHint\<close>

lemma sublist_inside: "sublist x b \<Longrightarrow> sublist x (a @ b @ c)"
proof -
  assume "sublist x b"
  then obtain ps ss where "b = ps @ x @ ss" by (auto simp: sublist_def)
  then have "a @ b @ c = (a @ ps) @ x @ (ss @ c)" by simp
  then show ?thesis unfolding sublist_def by blast
qed

lemma sublist_chain: "sublist a b \<Longrightarrow> sublist b c \<Longrightarrow> sublist a c"
proof -
  assume ab: "sublist a b" and "sublist b c"
  then obtain ps ss where "c = ps @ b @ ss" by (auto simp: sublist_def)
  with ab show ?thesis using sublist_inside [of a b ps ss] by simp
qed

lemma sublist_join: "x \<in> set xs \<Longrightarrow> sublist x (join sep xs)"
proof (induction sep xs rule: join.induct)
  case (1 sep)
  then show ?case by simp
next
  case (2 sep y)
  then show ?case by simp
next
  case (3 sep y z zs)
  show ?case
  proof (cases "x = y")
    case True
    then show ?thesis by simp
  next
    case False
    with "3.prems" have "x \<in> set (z # zs)" by simp
    then have "sublist x (join sep (z # zs))" by (rule "3.IH")
    then have "sublist x ((y @ sep) @ join sep (z # zs) @ [])"
      by (rule sublist_inside)
    then show ?thesis by simp
  qed
qed

lemma sublist_label_line: "sublist (fst e) (label_line e)"
  unfolding label_line_def using sublist_appendI [of "fst e" "''- ''"] by simp

lemma label_in_hint:
  assumes "l \<in> set (existingLabels s)"
  shows "sublist l (generateSchemaHint s)"
proof -
  from assms obtain e where e: "e \<in> set (labels s)" "fst e = l"
    by (auto simp: existingLabels_def)
  then have "sublist (label_line e) (join ''\<newline>'' (map label_line (labels s)))"
    by (intro sublist_join) simp
  with e have "sublist l (join ''\<newline>'' (map label_line (labels s)))"
    using sublist_label_line [of e] sublist_chain by blast
  then show ?thesis
    unfolding generateSchemaHint_def by (rule sublist_inside)
qed

lemma set_update_entries: "set (AList.update k v al) \<subseteq> insert (k, v) (set al)"
  by (induction al) auto

lemma collectMappings_keys:
  "fst ` set (collectMappings ex ms acc) =
     fst ` set acc \<union> {c. \<exists>cand. (c, cand) \<in> set ms \<and> filter (\<lambda>l. l \<in> set ex) cand \<noteq> []}"
proof (induction ms arbitrary: acc)
  case Nil
  then show ?case by simp
next
  case (Cons m ms)
  obtain c cand where m: "m = (c, cand)" by (cases m)
  show ?case
  proof (cases "filter (\<lambda>l. l \<in> set ex) cand = []")
    case True
    with m Cons.IH [of acc] show ?thesis by (auto simp: Let_def)
  next
    case False
    with m Cons.IH [of "AList.update c (filter (\<lambda>l. l \<in> set ex) cand) acc"]
    show ?thesis by (auto simp: Let_def dom_update image_iff)
  qed
qed

lemma collectMappings_entries:
  "(c, ls) \<in> set (collectMappings ex ms acc) \<Longrightarrow>
     (c, ls) \<in> set acc
     \<or> (\<exists>cand. (c, cand) \<in> set ms \<and> ls = filter (\<lambda>l. l \<in> set ex) cand \<and> ls \<noteq> [])"
proof (induction ms arbitrary: acc)
  case Nil
  then show ?case by simp
next
  case (Cons m ms)
  obtain c' cand' where m: "m = (c', cand')" by (cases m)
  show ?case
  proof (cases "filter (\<lambda>l. l \<in> set ex) cand' = []")
    case True
    with m Cons.prems Cons.IH [of acc] show ?thesis by (auto simp: Let_def)
  next
    case False
    with m Cons.prems
    have "(c, ls) \<in> set (collectMappings ex ms (AList.update c' (filter (\<lambda>l. l \<in> set ex) cand') acc))"
      by (simp add: Let_def)
    from Cons.IH [OF this]
    consider "(c, ls) \<in> set (AList.update c' (filter (\<lambda>l. l \<in> set ex) cand') acc)"
      | "\<exists>cand. (c, cand) \<in> set ms \<and> ls = filter (\<lambda>l. l \<in> set ex) cand \<and> ls \<noteq> []"
      by blast
    then show ?thesis
    proof cases
      case 1
      then have "(c, ls) = (c', filter (\<lambda>l. l \<in> set ex) cand') \<or> (c, ls) \<in> set acc"
        using set_update_entries [of c' "filter (\<lambda>l. l \<in> set ex) cand'" acc] by auto
      with m False show ?thesis by auto
    next
      case 2
      then show ?thesis by auto
    qed
  qed
qed

lemma elementMappings_distinct: "distinct (map fst elementMappings)"
  by (simp add: elementMappings_def)

lemma actualMappings_key:
  assumes "e \<in> set elementMappings"
  shows "(fst e \<in> fst ` set (actualMappings s)) = (\<exists>l\<in>set (snd e). l \<in> set (existingLabels s))"
proof -
  obtain c cand where e: "e = (c, cand)" by (cases e)
  have "(c \<in> fst ` set (actualMappings s))
        = (\<exists>cand'. (c, cand') \<in> set elementMappings
                   \<and> filter (\<lambda>l. l \<in> set (existingLabels s)) cand' \<noteq> [])"
    unfolding actualMappings_def collectMappings_keys by simp
  also have "\<dots> = (filter (\<lambda>l. l \<in> set (existingLabels s)) cand \<noteq> [])"
    using assms e eq_key_imp_eq_value [OF elementMappings_distinct] by blast
  also have "\<dots> = (\<exists>l\<in>set cand. l \<in> set (existingLabels s))"
    by (auto simp: filter_empty_conv)
  finally show ?thesis using e by simp
qed

lemma actualMappings_entry:
  assumes "m \<in> set (actualMappings s)"
  shows "\<exists>cand. (fst m, cand) \<in> set elementMappings
               \<and> snd m = filter (\<lambda>l. l \<in> set (existingLabels s)) cand \<and> snd m \<noteq> []"
proof -
  obtain c ls where m: "m = (c, ls)" by (cases m)
  with assms have "(c, ls) \<in> set (collectMappings (existingLabels s) elementMappings [])"
    by (simp add: actualMappings_def)
  from collectMappings_entries [OF this] m show ?thesis by simp
qed

text \<open>
  Claim C9. \<open>generateSchemaHint\<close> is a function of the snapshot. Its text is the fixed
  head, one line for each label, the heading of the mappings, one line for each entry of
  \<open>actualMappings\<close>, the heading of the relationship types, the names of the first ten
  relationship types, and the fixed tail. Every label name of the snapshot occurs in the
  text. A concept of \<open>elementMappings\<close> has an entry, and so a line, exactly when one of
  its candidate labels is a label of the snapshot, and the entry lists the candidates that
  are. At most ten relationship types are named.
\<close>

theorem generateSchemaHint_contents:
  "(\<forall>l\<in>set (existingLabels s). sublist l (generateSchemaHint s))
   \<and> generateSchemaHint s =
       hint_head @ join ''\<newline>'' (map label_line (labels s))
       @ hint_mappings @ join ''\<newline>'' (map mapping_line (actualMappings s))
       @ hint_relationships @ join '', '' (relationship_names s)
       @ hint_tail
   \<and> (\<forall>e\<in>set elementMappings.
         (fst e \<in> fst ` set (actualMappings s))
         = (\<exists>l\<in>set (snd e). l \<in> set (existingLabels s)))
   \<and> (\<forall>m\<in>set (actualMappings s).
         \<exists>cand. (fst m, cand) \<in> set elementMappings
               \<and> snd m = filter (\<lambda>l. l \<in> set (existingLabels s)) cand \<and> snd m \<noteq> [])
   \<and> length (relationship_names s) \<le> 10
   \<and> relationship_names s = take 10 (map fst (relationships s))"
proof (intro conjI)
  show "\<forall>l\<in>set (existingLabels s). sublist l (generateSchemaHint s)"
    using label_in_hint by blast
next
  show "generateSchemaHint s =
       hint_head @ join ''\<newline>'' (map label_line (labels s))
       @ hint_mappings @ join ''\<newline>'' (map mapping_line (actualMappings s))
       @ hint_relationships @ join '', '' (relationship_names s)
       @ hint_tail"
    by (simp add: generateSchemaHint_def)
next
  show "\<forall>e\<in>set elementMappings.
         (fst e \<in> fst ` set (actualMappings s))
         = (\<exists>l\<in>set (snd e). l \<in> set (existingLabels s))"
    using actualMappings_key by blast
next
  show "\<forall>m\<in>set (actualMappings s).
         \<exists>cand. (fst m, cand) \<in> set elementMappings
               \<and> snd m = filter (\<lambda>l. l \<in> set (existingLabels s)) cand \<and> snd m \<noteq> []"
    using actualMappings_entry by blast
next
  show "length (relationship_names s) \<le> 10"
    by (simp add: relationship_names_def)
next
  show "relationship_names s = take 10 (map fst (relationships s))"
    by (simp add: relationship_names_def)
qed

lemma storey_mappings:
  "actualMappings storey_schema = [(''slab'', [''IfcSlab'']), (''floor'', [''IfcSlab''])]"
  by (simp add: actualMappings_def existingLabels_def storey_schema_def elementMappings_def Let_def)

text \<open>
  The theorem at a snapshot with the labels \<open>IfcSlab\<close> and \<open>Zone\<close> and eleven
  relationship types: both labels occur in the text, the concepts \<open>slab\<close> and \<open>floor\<close>
  are the ones with a line, and the eleventh relationship type is not named.
\<close>

theorem generateSchemaHint_contents_witness:
  "existingLabels storey_schema = [''IfcSlab'', ''Zone'']
   \<and> sublist ''IfcSlab'' (generateSchemaHint storey_schema)
   \<and> sublist ''Zone'' (generateSchemaHint storey_schema)
   \<and> (''floor'', [''IfcBuildingStorey'', ''IfcSlab'']) \<in> set elementMappings
   \<and> map mapping_line (actualMappings storey_schema) = [''- slab: IfcSlab'', ''- floor: IfcSlab'']
   \<and> relationship_names storey_schema
       = [''R1'', ''R2'', ''R3'', ''R4'', ''R5'', ''R6'', ''R7'', ''R8'', ''R9'', ''R10'']"
proof -
  have a: "existingLabels storey_schema = [''IfcSlab'', ''Zone'']"
    by (simp add: existingLabels_def storey_schema_def)
  have b: "(''floor'', [''IfcBuildingStorey'', ''IfcSlab'']) \<in> set elementMappings"
    by (simp add: elementMappings_def)
  have c: "map mapping_line (actualMappings storey_schema) = [''- slab: IfcSlab'', ''- floor: IfcSlab'']"
    by (simp add: storey_mappings mapping_line_def)
  have d: "take 10 (map fst (relationships storey_schema))
       = [''R1'', ''R2'', ''R3'', ''R4'', ''R5'', ''R6'', ''R7'', ''R8'', ''R9'', ''R10'']"
    by (simp add: storey_schema_def)
  note T = generateSchemaHint_contents [of storey_schema]
  from T have "\<forall>l\<in>set (existingLabels storey_schema). sublist l (generateSchemaHint storey_schema)"
    by (rule conjunct1)
  with a have e: "sublist ''IfcSlab'' (generateSchemaHint storey_schema)
      \<and> sublist ''Zone'' (generateSchemaHint storey_schema)"
    by simp
  from T have "relationship_names storey_schema = take 10 (map fst (relationships storey_schema))"
    by blast
  with d have f: "relationship_names storey_schema
       = [''R1'', ''R2'', ''R3'', ''R4'', ''R5'', ''R6'', ''R7'', ''R8'', ''R9'', ''R10'']"
    by simp
  from a b c e f show ?thesis by blast
qed

section \<open>Properties of discoverSchema\<close>

lemma update_positive:
  "list_all (\<lambda>(l, info). 0 < count info) acc \<Longrightarrow> 0 < count i \<Longrightarrow>
   list_all (\<lambda>(l, info). 0 < count info) (AList.update k i acc)"
  by (induction acc) auto

lemma label_loop_positive:
  "label_loop sn rows acc ev = (Inr ls, ev') \<Longrightarrow> list_all (\<lambda>(l, info). 0 < count info) acc
   \<Longrightarrow> list_all (\<lambda>(l, info). 0 < count info) ls"
proof (induction sn rows acc ev rule: label_loop.induct)
  case (1 sn labels_acc ev)
  then show ?case by simp
next
  case (2 sn label cnt rest labels_acc ev)
  show ?case
  proof (cases "cnt > 0")
    case False
    with 2 show ?thesis by simp
  next
    case True
    show ?thesis
    proof (cases "sn label")
      case (Inl e)
      with True "2.prems" show ?thesis by simp
    next
      case (Inr propRecords)
      obtain ps ss where sl: "sample_loop propRecords ([], []) = (ps, ss)"
        by (cases "sample_loop propRecords ([], [])")
      let ?info = "\<lparr>count = cnt, properties = ps, samples = take 2 ss\<rparr>"
      from True Inr sl "2.prems"(1)
      have run: "label_loop sn rest (AList.update label ?info labels_acc)
                   (ev @ [Run (SampleNodes label)]) = (Inr ls, ev')"
        by simp
      have "list_all (\<lambda>(l, info). 0 < count info) (AList.update label ?info labels_acc)"
        using "2.prems"(2) True by (intro update_positive) simp_all
      with "2.IH"(1) [OF True Inr sl [symmetric] refl run] show ?thesis .
    qed
  qed
qed

lemma label_loop_events:
  "label_loop sn rows acc ev = (res, ev') \<Longrightarrow> list_all (\<lambda>e. \<not> is_session_event e) ev
   \<Longrightarrow> list_all (\<lambda>e. \<not> is_session_event e) ev'"
proof (induction sn rows acc ev rule: label_loop.induct)
  case (1 sn labels_acc ev)
  then show ?case by simp
next
  case (2 sn label cnt rest labels_acc ev)
  show ?case
  proof (cases "cnt > 0")
    case False
    with 2 show ?thesis by simp
  next
    case True
    show ?thesis
    proof (cases "sn label")
      case (Inl e)
      with True "2.prems" show ?thesis by auto
    next
      case (Inr propRecords)
      obtain ps ss where sl: "sample_loop propRecords ([], []) = (ps, ss)"
        by (cases "sample_loop propRecords ([], [])")
      let ?info = "\<lparr>count = cnt, properties = ps, samples = take 2 ss\<rparr>"
      from True Inr sl "2.prems"(1)
      have run: "label_loop sn rest (AList.update label ?info labels_acc)
                   (ev @ [Run (SampleNodes label)]) = (res, ev')"
        by simp
      have "list_all (\<lambda>e. \<not> is_session_event e) (ev @ [Run (SampleNodes label)])"
        using "2.prems"(2) by simp
      with "2.IH"(1) [OF True Inr sl [symmetric] refl run] show ?thesis .
    qed
  qed
qed

lemma label_loop_keeps:
  "label_loop sn rows acc ev = (res, ev') \<Longrightarrow> set ev \<subseteq> set ev'"
proof (induction sn rows acc ev rule: label_loop.induct)
  case (1 sn labels_acc ev)
  then show ?case by simp
next
  case (2 sn label cnt rest labels_acc ev)
  show ?case
  proof (cases "cnt > 0")
    case False
    with 2 show ?thesis by simp
  next
    case True
    show ?thesis
    proof (cases "sn label")
      case (Inl e)
      with True "2.prems" show ?thesis by auto
    next
      case (Inr propRecords)
      obtain ps ss where sl: "sample_loop propRecords ([], []) = (ps, ss)"
        by (cases "sample_loop propRecords ([], [])")
      let ?info = "\<lparr>count = cnt, properties = ps, samples = take 2 ss\<rparr>"
      from True Inr sl "2.prems"(1)
      have run: "label_loop sn rest (AList.update label ?info labels_acc)
                   (ev @ [Run (SampleNodes label)]) = (res, ev')"
        by simp
      from "2.IH"(1) [OF True Inr sl [symmetric] refl run] show ?thesis by simp
    qed
  qed
qed

lemma discover_positive: "discover db = (Inr snap, ev) \<Longrightarrow> positive_counts snap"
proof -
  assume d: "discover db = (Inr snap, ev)"
  then obtain labelResult where lr: "label_counts db = Inr labelResult"
    by (auto simp: discover_def split: sum.splits)
  obtain res ev1 where ll: "label_loop (sample_nodes db) labelResult [] [Run LabelCounts] = (res, ev1)"
    by (cases "label_loop (sample_nodes db) labelResult [] [Run LabelCounts]")
  with d lr obtain ls where res: "res = Inr ls" and snap: "labels snap = ls"
    by (auto simp: discover_def split: sum.splits)
  from ll res have "list_all (\<lambda>(l, info). 0 < count info) ls"
    using label_loop_positive [of "sample_nodes db" labelResult "[]" "[Run LabelCounts]" ls ev1]
    by simp
  with snap show ?thesis by (simp add: positive_counts_def)
qed

lemma discover_events:
  "list_all (\<lambda>e. \<not> is_session_event e) (snd (discover db)) \<and> Run LabelCounts \<in> set (snd (discover db))"
proof (cases "label_counts db")
  case (Inl e)
  then show ?thesis by (simp add: discover_def)
next
  case (Inr labelResult)
  obtain res ev1 where ll: "label_loop (sample_nodes db) labelResult [] [Run LabelCounts] = (res, ev1)"
    by (cases "label_loop (sample_nodes db) labelResult [] [Run LabelCounts]")
  have a: "list_all (\<lambda>e. \<not> is_session_event e) ev1"
    using label_loop_events [OF ll] by simp
  have b: "Run LabelCounts \<in> set ev1"
    using label_loop_keeps [OF ll] by simp
  from Inr ll a b show ?thesis
    by (auto simp: discover_def split: sum.splits)
qed

lemma discoverSchema_fresh:
  "schemaCache st = Some snap \<Longrightarrow> now - schemaCacheTime st < CACHE_DURATION \<Longrightarrow>
   discoverSchema now db st = (snap, st, [])"
  by (simp add: discoverSchema_def cache_fresh_def)

lemma discoverSchema_success:
  "\<not> cache_fresh now st \<Longrightarrow> discover db = (Inr snap, ev) \<Longrightarrow>
   discoverSchema now db st =
     (snap, \<lparr>schemaCache = Some snap, schemaCacheTime = now\<rparr>, SessionOpen # ev @ [SessionClose])"
  by (simp add: discoverSchema_def)

lemma discoverSchema_failure:
  "\<not> cache_fresh now st \<Longrightarrow> discover db = (Inl e, ev) \<Longrightarrow>
   discoverSchema now db st = (fallbackSchema, st, SessionOpen # ev @ [SessionClose])"
  by (simp add: discoverSchema_def)

lemma fallback_not_positive: "\<not> positive_counts fallbackSchema"
  by (simp add: positive_counts_def fallbackSchema_def)

text \<open>
  Claim C3, as amended. When the cache holds no snapshot with a label without nodes, the
  snapshot that \<open>discoverSchema\<close> returns from the cache or builds by a discovery that
  succeeds has a count greater than zero for every label, and the cache still holds no
  snapshot with a label without nodes. When the discovery fails the snapshot returned is the
  fixed one, each of whose three labels has the count zero; it is not stored.
\<close>

theorem discoverSchema_counts:
  "cache_ok st \<longrightarrow>
     (positive_counts (fst (discoverSchema now db st))
      \<or> (\<not> cache_fresh now st \<and> isl (fst (discover db))
          \<and> fst (discoverSchema now db st) = fallbackSchema
          \<and> fst (snd (discoverSchema now db st)) = st
          \<and> map (\<lambda>e. count (snd e)) (labels fallbackSchema) = [0, 0, 0]))
     \<and> cache_ok (fst (snd (discoverSchema now db st)))"
proof
  assume ok: "cache_ok st"
  show "(positive_counts (fst (discoverSchema now db st))
      \<or> (\<not> cache_fresh now st \<and> isl (fst (discover db))
          \<and> fst (discoverSchema now db st) = fallbackSchema
          \<and> fst (snd (discoverSchema now db st)) = st
          \<and> map (\<lambda>e. count (snd e)) (labels fallbackSchema) = [0, 0, 0]))
     \<and> cache_ok (fst (snd (discoverSchema now db st)))"
  proof (cases "cache_fresh now st")
    case True
    then obtain cached where c: "schemaCache st = Some cached"
      by (auto simp: cache_fresh_def)
    with True have "discoverSchema now db st = (cached, st, [])"
      by (simp add: discoverSchema_fresh cache_fresh_def)
    with ok c show ?thesis by (simp add: cache_ok_def)
  next
    case False
    obtain res ev where d: "discover db = (res, ev)" by (cases "discover db")
    show ?thesis
    proof (cases res)
      case (Inl e)
      with False d ok show ?thesis
        by (simp add: discoverSchema_failure fallbackSchema_def)
    next
      case (Inr snap)
      with d have "positive_counts snap" using discover_positive by blast
      with False d Inr show ?thesis
        by (simp add: discoverSchema_success cache_ok_def)
    qed
  qed
qed

text \<open>
  The theorem from the empty cache: the discovery on a graph with two doors and a label
  without nodes gives the snapshot with the one label \<open>IfcDoor\<close>, and when the discovery
  queries raise the fixed snapshot is returned and the cache stays empty.
\<close>

theorem discoverSchema_counts_witness:
  "cache_ok initial_cache
   \<and> map fst (labels (fst (discoverSchema 0 db_doors initial_cache))) = [''IfcDoor'']
   \<and> positive_counts (fst (discoverSchema 0 db_doors initial_cache))
   \<and> cache_ok (fst (snd (discoverSchema 0 db_doors initial_cache)))
   \<and> fst (discoverSchema 0 db_unavailable initial_cache) = fallbackSchema
   \<and> fst (snd (discoverSchema 0 db_unavailable initial_cache)) = initial_cache"
proof -
  have a: "cache_ok initial_cache" by (simp add: cache_ok_def initial_cache_def)
  have b: "map fst (labels (fst (discoverSchema 0 db_doors initial_cache))) = [''IfcDoor'']"
    by (simp add: discoverSchema_def cache_fresh_def initial_cache_def discover_def db_doors_def
        add_all_def)
  have c: "fst (discoverSchema 0 db_doors initial_cache) \<noteq> fallbackSchema"
    using b by (auto simp: fallbackSchema_def)
  have d: "fst (discoverSchema 0 db_unavailable initial_cache) = fallbackSchema
      \<and> fst (snd (discoverSchema 0 db_unavailable initial_cache)) = initial_cache"
    by (simp add: discoverSchema_def cache_fresh_def initial_cache_def discover_def db_unavailable_def)
  from a b c d discoverSchema_counts [of initial_cache 0 db_doors] show ?thesis
    by blast
qed

text \<open>
  Claim C3 as stated fails on the path of failure: the snapshot returned when the discovery
  queries raise has labels whose count is zero.
\<close>

theorem discoverSchema_fallback_counterexample:
  "\<not> positive_counts (fst (discoverSchema 0 db_unavailable initial_cache))"
  by (simp add: discoverSchema_def cache_fresh_def initial_cache_def discover_def db_unavailable_def
      positive_counts_def fallbackSchema_def)

lemma stale_stays_stale:
  "\<not> cache_fresh now st \<Longrightarrow> now \<le> now2 \<Longrightarrow> \<not> cache_fresh now2 st"
  by (auto simp: cache_fresh_def)

lemma discoverSchema_discovers:
  "\<not> cache_fresh now st \<Longrightarrow> Run LabelCounts \<in> set (snd (snd (discoverSchema now db st)))"
proof -
  assume stale: "\<not> cache_fresh now st"
  obtain res ev where d: "discover db = (res, ev)" by (cases "discover db")
  with discover_events [of db] have "Run LabelCounts \<in> set ev" by simp
  with stale d show ?thesis
    by (cases res) (simp_all add: discoverSchema_success discoverSchema_failure)
qed

text \<open>
  Claim C5. If the cache holds a snapshot and less than 300000 ms have passed since it was
  stored, \<open>discoverSchema\<close> returns that snapshot, leaves the cache as it is and makes no
  call to the database. A snapshot that a discovery has built is stored with the time of
  the call, so that a second call less than 300000 ms later returns the same snapshot with
  no call to the database. When the discovery fails, the fixed snapshot is returned and the
  cache is left as it was, so that the next call, at the same time or later, runs the
  discovery again.
\<close>

theorem discoverSchema_cache:
  "(schemaCache st = Some snap \<and> now - schemaCacheTime st < 300000
      \<longrightarrow> discoverSchema now db st = (snap, st, []))
   \<and> (\<not> cache_fresh now st \<and> fst (discover db) = Inr snap \<and> now2 - now < 300000
      \<longrightarrow> fst (discoverSchema now db st) = snap
          \<and> discoverSchema now2 db2 (fst (snd (discoverSchema now db st)))
              = (snap, fst (snd (discoverSchema now db st)), []))
   \<and> (\<not> cache_fresh now st \<and> isl (fst (discover db)) \<and> now \<le> now2
      \<longrightarrow> fst (discoverSchema now db st) = fallbackSchema
          \<and> fst (snd (discoverSchema now db st)) = st
          \<and> Run LabelCounts
               \<in> set (snd (snd (discoverSchema now2 db2 (fst (snd (discoverSchema now db st)))))))"
proof (intro conjI impI)
  assume "schemaCache st = Some snap \<and> now - schemaCacheTime st < 300000"
  then show "discoverSchema now db st = (snap, st, [])"
    by (simp add: discoverSchema_fresh CACHE_DURATION_def)
next
  assume h: "\<not> cache_fresh now st \<and> fst (discover db) = Inr snap \<and> now2 - now < 300000"
  then obtain ev where d: "discover db = (Inr snap, ev)" by (cases "discover db") auto
  with h have r: "discoverSchema now db st =
      (snap, \<lparr>schemaCache = Some snap, schemaCacheTime = now\<rparr>, SessionOpen # ev @ [SessionClose])"
    by (simp add: discoverSchema_success)
  then show "fst (discoverSchema now db st) = snap" by simp
  from h have "discoverSchema now2 db2 \<lparr>schemaCache = Some snap, schemaCacheTime = now\<rparr>
      = (snap, \<lparr>schemaCache = Some snap, schemaCacheTime = now\<rparr>, [])"
    by (intro discoverSchema_fresh) (simp_all add: CACHE_DURATION_def)
  with r show "discoverSchema now2 db2 (fst (snd (discoverSchema now db st)))
              = (snap, fst (snd (discoverSchema now db st)), [])"
    by simp
next
  assume h: "\<not> cache_fresh now st \<and> isl (fst (discover db)) \<and> now \<le> now2"
  then obtain e ev where d: "discover db = (Inl e, ev)"
    by (cases "discover db") (auto simp: isl_def)
  with h have r: "discoverSchema now db st = (fallbackSchema, st, SessionOpen # ev @ [SessionClose])"
    by (simp add: discoverSchema_failure)
  then show "fst (discoverSchema now db st) = fallbackSchema" by simp
  from r show "fst (snd (discoverSchema now db st)) = st" by simp
  from h have "\<not> cache_fresh now2 st" using stale_stays_stale by blast
  then have "Run LabelCounts \<in> set (snd (snd (discoverSchema now2 db2 st)))"
    by (rule discoverSchema_discovers)
  with r show "Run LabelCounts
      \<in> set (snd (snd (discoverSchema now2 db2 (fst (snd (discoverSchema now db st))))))"
    by simp
qed

lemma discover_doors_ok: "\<not> isl (fst (discover db_doors))"
  by (simp add: discover_def db_doors_def add_all_def)

lemma discover_unavailable: "discover db_unavailable = (Inl (QueryError ''no procedure''), [Run LabelCounts])"
  by (simp add: discover_def db_unavailable_def)

lemma initial_stale: "\<not> cache_fresh now initial_cache"
  by (simp add: cache_fresh_def initial_cache_def)

text \<open>
  The theorem from the empty cache. A discovery at time 0 that succeeds is followed by a
  call at time 299999 that makes no call to the database and returns the same snapshot; a
  discovery at time 0 that fails leaves the cache empty and the call that follows runs the
  discovery.
\<close>

theorem discoverSchema_cache_witness:
  "discoverSchema 2000 db_unavailable \<lparr>schemaCache = Some door_schema, schemaCacheTime = 1000\<rparr>
     = (door_schema, \<lparr>schemaCache = Some door_schema, schemaCacheTime = 1000\<rparr>, [])
   \<and> \<not> cache_fresh 0 initial_cache
   \<and> \<not> isl (fst (discover db_doors))
   \<and> discoverSchema 299999 db_unavailable (fst (snd (discoverSchema 0 db_doors initial_cache)))
       = (fst (discoverSchema 0 db_doors initial_cache),
          fst (snd (discoverSchema 0 db_doors initial_cache)), [])
   \<and> isl (fst (discover db_unavailable))
   \<and> fst (discoverSchema 0 db_unavailable initial_cache) = fallbackSchema
   \<and> fst (snd (discoverSchema 0 db_unavailable initial_cache)) = initial_cache
   \<and> Run LabelCounts
        \<in> set (snd (snd (discoverSchema 0 db_doors
                            (fst (snd (discoverSchema 0 db_unavailable initial_cache))))))"
proof -
  obtain snap where s: "fst (discover db_doors) = Inr snap"
    using discover_doors_ok by (cases "fst (discover db_doors)") auto
  have u: "isl (fst (discover db_unavailable))" by (simp add: discover_unavailable)
  have a: "discoverSchema 2000 db_unavailable \<lparr>schemaCache = Some door_schema, schemaCacheTime = 1000\<rparr>
     = (door_schema, \<lparr>schemaCache = Some door_schema, schemaCacheTime = 1000\<rparr>, [])"
    using discoverSchema_cache [where st = "\<lparr>schemaCache = Some door_schema, schemaCacheTime = 1000\<rparr>"
      and snap = door_schema and now = 2000 and db = db_unavailable and ?now2.0 = 0 and ?db2.0 = db_doors]
    by simp
  have b: "fst (discoverSchema 0 db_doors initial_cache) = snap
      \<and> discoverSchema 299999 db_unavailable (fst (snd (discoverSchema 0 db_doors initial_cache)))
       = (snap, fst (snd (discoverSchema 0 db_doors initial_cache)), [])"
    using discoverSchema_cache [where st = initial_cache and snap = snap and now = 0 and db = db_doors
      and ?now2.0 = 299999 and ?db2.0 = db_unavailable] s initial_stale [of 0]
    by simp
  have c: "fst (discoverSchema 0 db_unavailable initial_cache) = fallbackSchema
   \<and> fst (snd (discoverSchema 0 db_unavailable initial_cache)) = initial_cache
   \<and> Run LabelCounts
        \<in> set (snd (snd (discoverSchema 0 db_doors
                            (fst (snd (discoverSchema 0 db_unavailable initial_cache))))))"
    using discoverSchema_cache [where st = initial_cache and snap = snap and now = 0 and db = db_unavailable
      and ?now2.0 = 0 and ?db2.0 = db_doors] u initial_stale [of 0] order_refl [of "0::int"]
    by blast
  from b have b': "discoverSchema 299999 db_unavailable (fst (snd (discoverSchema 0 db_doors initial_cache)))
       = (fst (discoverSchema 0 db_doors initial_cache),
          fst (snd (discoverSchema 0 db_doors initial_cache)), [])"
    by simp
  from a b' c u initial_stale [of 0] discover_doors_ok show ?thesis by blast
qed

section \<open>Properties of processQuery\<close>

lemma fallback_loop_events:
  "fallback_loop run n fbs vars ev = (vars', ev', n') \<Longrightarrow>
   list_all (\<lambda>e. \<not> is_session_event e) ev \<Longrightarrow> list_all (\<lambda>e. \<not> is_session_event e) ev'"
proof (induction fbs arbitrary: n vars ev)
  case Nil
  then show ?case by simp
next
  case (Cons fb fbs)
  show ?case
  proof (cases "run n (cypher fb)")
    case (Inr r)
    with Cons.prems show ?thesis by (auto simp: Let_def)
  next
    case (Inl e)
    let ?vars1 = "vars\<lparr>cur_attempts :=
                    cur_attempts vars @ [\<lparr>attempt_cypher = cypher fb, source = strategy fb\<rparr>]\<rparr>"
    from Inl Cons.prems(1)
    have "fallback_loop run (Suc n) fbs ?vars1 (ev @ [Run (Cypher (cypher fb))]) = (vars', ev', n')"
      by (simp add: Let_def)
    moreover have "list_all (\<lambda>e. \<not> is_session_event e) (ev @ [Run (Cypher (cypher fb))])"
      using Cons.prems(2) by simp
    ultimately show ?thesis by (rule Cons.IH)
  qed
qed

lemma after_generated_events:
  assumes "list_all (\<lambda>e. \<not> is_session_event e) ev"
  shows "list_all (\<lambda>e. \<not> is_session_event e) (snd (after_generated run question schema vars ev))"
proof -
  obtain vars1 ev1 n where fl:
    "fallback_loop run 1 (generateFallbackQueries question schema) vars ev = (vars1, ev1, n)"
    by (cases "fallback_loop run 1 (generateFallbackQueries question schema) vars ev") auto
  from fallback_loop_events [OF fl assms] have "list_all (\<lambda>e. \<not> is_session_event e) ev1" .
  with fl show ?thesis
    by (auto simp: after_generated_def split: option.splits sum.splits)
qed

lemma resolve_events:
  "list_all (\<lambda>e. \<not> is_session_event e) (snd (resolve translate run question schema))"
proof (cases "translate (make_prompt schema question)")
  case (Inl e)
  then show ?thesis by (simp add: resolve_def)
next
  case (Inr content)
  let ?c = "clean (case content of None \<Rightarrow> [] | Some c \<Rightarrow> c)"
  let ?ev = "[Translate (make_prompt schema question), Run (Cypher ?c)]"
  have ev: "list_all (\<lambda>e. \<not> is_session_event e) ?ev" by simp
  show ?thesis
  proof (cases "run 0 ?c")
    case (Inl aiError)
    with Inr after_generated_events [OF ev] show ?thesis
      by (simp add: resolve_def Let_def)
  next
    case r: (Inr r)
    with Inr after_generated_events [OF ev] show ?thesis
      by (simp add: resolve_def Let_def)
  qed
qed

lemma processQuery_events:
  "\<exists>mid. snd (processQuery translate run question schema) = SessionOpen # mid @ [SessionClose]
         \<and> list_all (\<lambda>e. \<not> is_session_event e) mid"
proof -
  obtain res ev where r: "resolve translate run question schema = (res, ev)"
    by (cases "resolve translate run question schema")
  with resolve_events [of translate run question schema]
  have "list_all (\<lambda>e. \<not> is_session_event e) ev" by simp
  with r show ?thesis by (simp add: processQuery_def)
qed

lemma discoverSchema_events:
  assumes "\<not> cache_fresh now st"
  shows "\<exists>mid. snd (snd (discoverSchema now db st)) = SessionOpen # mid @ [SessionClose]
           \<and> list_all (\<lambda>e. \<not> is_session_event e) mid"
proof -
  obtain res ev where d: "discover db = (res, ev)" by (cases "discover db")
  with discover_events [of db] have "list_all (\<lambda>e. \<not> is_session_event e) ev" by simp
  with assms d show ?thesis
    by (cases res) (simp_all add: discoverSchema_success discoverSchema_failure)
qed

text \<open>
  Claim C8, as amended. \<open>discoverSchema\<close> opens no session when it returns the cached
  snapshot; otherwise it opens exactly one session, first, and closes it, last, whether the
  discovery succeeds or a query raises. \<open>processQuery\<close> opens exactly one session, first,
  and closes it, last, on every path: when it returns a result and when the translator or
  the ultimate fallback raises.
\<close>

theorem sessions_released:
  "(cache_fresh now st \<longrightarrow> snd (snd (discoverSchema now db st)) = [])
   \<and> (\<not> cache_fresh now st \<longrightarrow>
        (\<exists>mid. snd (snd (discoverSchema now db st)) = SessionOpen # mid @ [SessionClose]
              \<and> list_all (\<lambda>e. \<not> is_session_event e) mid))
   \<and> (\<exists>mid. snd (processQuery translate run question schema) = SessionOpen # mid @ [SessionClose]
            \<and> list_all (\<lambda>e. \<not> is_session_event e) mid)"
proof (intro conjI impI)
  assume "cache_fresh now st"
  then show "snd (snd (discoverSchema now db st)) = []"
    by (auto simp: discoverSchema_def cache_fresh_def)
next
  assume "\<not> cache_fresh now st"
  then show "\<exists>mid. snd (snd (discoverSchema now db st)) = SessionOpen # mid @ [SessionClose]
              \<and> list_all (\<lambda>e. \<not> is_session_event e) mid"
    by (rule discoverSchema_events)
next
  show "\<exists>mid. snd (processQuery translate run question schema) = SessionOpen # mid @ [SessionClose]
            \<and> list_all (\<lambda>e. \<not> is_session_event e) mid"
    by (rule processQuery_events)
qed

lemma trim_limit0: "trim ''MATCH (n) RETURN n LIMIT 0'' = ''MATCH (n) RETURN n LIMIT 0''"
  by (simp add: trim_def is_space_def)

lemma remove_all_none:
  "pat \<noteq> [] \<Longrightarrow> hd pat \<notin> set s \<Longrightarrow> remove_all pat s = s"
proof (induction s)
  case Nil
  then show ?case by (simp add: remove_all.simps)
next
  case (Cons c s)
  from Cons.prems have np: "\<not> prefix pat (c # s)"
    by (cases pat) auto
  from Cons have ih: "remove_all pat s = s" by simp
  have "remove_all pat (c # s) = c # remove_all pat s"
    using np Cons.prems(1) by (subst remove_all.simps) simp
  with ih show ?case by simp
qed

lemma clean_limit0: "clean ''MATCH (n) RETURN n LIMIT 0'' = ''MATCH (n) RETURN n LIMIT 0''"
  by (simp add: clean_def trim_limit0 remove_all_none)

lemma fresh_example: "cache_fresh 2000 \<lparr>schemaCache = Some door_schema, schemaCacheTime = 1000\<rparr>"
  by (simp add: cache_fresh_def CACHE_DURATION_def)

lemma fallbacks_hello: "generateFallbackQueries ''hello'' schema = []"
  by (simp add: generateFallbackQueries_def toLowerCase_def concepts_def concept_matches_def
      general_def wants_count_def wants_list_def str_includes_def sublist_code)

lemma processQuery_hello:
  "processQuery translator_limit0 always_empty ''hello'' door_schema =
     (Inr \<lparr>out_cypher = ''MATCH (n) RETURN n LIMIT 0'', out_result = \<lparr>records = []\<rparr>,
           out_attempts = [\<lparr>attempt_cypher = ''MATCH (n) RETURN n LIMIT 0'', source = ''AI''\<rparr>]\<rparr>,
      [SessionOpen, Translate (make_prompt door_schema ''hello''),
       Run (Cypher ''MATCH (n) RETURN n LIMIT 0''), SessionClose])"
  by (simp add: processQuery_def resolve_def translator_limit0_def always_empty_def clean_limit0
      after_generated_def fallbacks_hello Let_def)

text \<open>
  The theorem at a fresh cache, at the empty cache with a database whose discovery queries
  raise, and at a question answered by the generated query.
\<close>

theorem sessions_released_witness:
  "cache_fresh 2000 \<lparr>schemaCache = Some door_schema, schemaCacheTime = 1000\<rparr>
   \<and> snd (snd (discoverSchema 2000 db_doors \<lparr>schemaCache = Some door_schema, schemaCacheTime = 1000\<rparr>)) = []
   \<and> \<not> cache_fresh 0 initial_cache
   \<and> snd (snd (discoverSchema 0 db_unavailable initial_cache))
       = SessionOpen # [Run LabelCounts] @ [SessionClose]
   \<and> snd (processQuery translator_limit0 always_empty ''hello'' door_schema)
       = SessionOpen # [Translate (make_prompt door_schema ''hello''),
                        Run (Cypher ''MATCH (n) RETURN n LIMIT 0'')] @ [SessionClose]"
proof -
  have a: "snd (snd (discoverSchema 2000 db_doors \<lparr>schemaCache = Some door_schema, schemaCacheTime = 1000\<rparr>)) = []"
    using sessions_released [where now = 2000
        and st = "\<lparr>schemaCache = Some door_schema, schemaCacheTime = 1000\<rparr>" and db = db_doors
        and translate = translator_limit0 and run = always_empty and question = "''hello''"
        and schema = door_schema]
      fresh_example
    by blast
  have b: "snd (snd (discoverSchema 0 db_unavailable initial_cache))
       = SessionOpen # [Run LabelCounts] @ [SessionClose]"
    by (simp add: discoverSchema_failure [OF initial_stale discover_unavailable])
  have c: "snd (processQuery translator_limit0 always_empty ''hello'' door_schema)
       = SessionOpen # [Translate (make_prompt door_schema ''hello''),
                        Run (Cypher ''MATCH (n) RETURN n LIMIT 0'')] @ [SessionClose]"
    by (simp add: processQuery_hello)
  from a b c fresh_example initial_stale [of 0] show ?thesis by blast
qed

text \<open>
  Claim C8 as stated fails for \<open>discoverSchema\<close>: a call that finds the cache fresh
  returns before any session is opened. After a discovery at time 0, the call at time 1000
  has no event at all.
\<close>

theorem discoverSchema_no_session_counterexample:
  "count_list
     (snd (snd (discoverSchema 1000 db_doors (fst (snd (discoverSchema 0 db_doors initial_cache))))))
     SessionOpen = 0"
  by (simp add: discoverSchema_def cache_fresh_def initial_cache_def discover_def db_doors_def
      add_all_def CACHE_DURATION_def)

lemma fallback_loop_all_fail:
  "(\<forall>i<length fbs. isl (run (n + i) (cypher (fbs ! i)))) \<Longrightarrow>
   \<exists>vars'. fallback_loop run n fbs vars ev
             = (vars', ev @ map (\<lambda>fb. Run (Cypher (cypher fb))) fbs, n + length fbs)
          \<and> cur_result vars' = cur_result vars \<and> cur_cypher vars' = cur_cypher vars
          \<and> map source (cur_attempts vars') = map source (cur_attempts vars) @ map strategy fbs"
proof (induction fbs arbitrary: n vars ev)
  case Nil
  then show ?case by simp
next
  case (Cons fb fbs)
  from Cons.prems have "isl (run (n + 0) (cypher ((fb # fbs) ! 0)))" by blast
  then obtain e where e: "run n (cypher fb) = Inl e" by (auto simp: isl_def)
  have rest: "\<forall>i<length fbs. isl (run (Suc n + i) (cypher (fbs ! i)))"
  proof (intro allI impI)
    fix i assume "i < length fbs"
    then have "Suc i < length (fb # fbs)" by simp
    with Cons.prems have "isl (run (n + Suc i) (cypher ((fb # fbs) ! Suc i)))" by blast
    then show "isl (run (Suc n + i) (cypher (fbs ! i)))" by simp
  qed
  let ?vars1 = "vars\<lparr>cur_attempts :=
                  cur_attempts vars @ [\<lparr>attempt_cypher = cypher fb, source = strategy fb\<rparr>]\<rparr>"
  from Cons.IH [OF rest, of ?vars1 "ev @ [Run (Cypher (cypher fb))]"]
  obtain vars' where
    "fallback_loop run (Suc n) fbs ?vars1 (ev @ [Run (Cypher (cypher fb))])
       = (vars', (ev @ [Run (Cypher (cypher fb))]) @ map (\<lambda>fb. Run (Cypher (cypher fb))) fbs,
          Suc n + length fbs)"
    "cur_result vars' = cur_result ?vars1" "cur_cypher vars' = cur_cypher ?vars1"
    "map source (cur_attempts vars') = map source (cur_attempts ?vars1) @ map strategy fbs"
    by blast
  with e show ?case by (simp add: Let_def)
qed

lemma after_generated_all_fail:
  assumes "\<forall>i<length (generateFallbackQueries question schema).
             isl (run (Suc i) (cypher (generateFallbackQueries question schema ! i)))"
    and "cur_result vars = Some r"
  shows "\<exists>res. after_generated run question schema vars ev
            = (Inr res, ev @ map (\<lambda>fb. Run (Cypher (cypher fb))) (generateFallbackQueries question schema))
          \<and> out_result res = r \<and> out_cypher res = cur_cypher vars
          \<and> map source (out_attempts res)
              = map source (cur_attempts vars) @ map strategy (generateFallbackQueries question schema)"
proof -
  from assms(1) have "\<forall>i<length (generateFallbackQueries question schema).
             isl (run (1 + i) (cypher (generateFallbackQueries question schema ! i)))"
    by simp
  from fallback_loop_all_fail [OF this, of vars ev] assms(2) show ?thesis
    by (auto simp: after_generated_def)
qed

lemma after_generated_ultimate:
  assumes "\<forall>i<length (generateFallbackQueries question schema).
             isl (run (Suc i) (cypher (generateFallbackQueries question schema ! i)))"
    and "cur_result vars = None"
    and "run (Suc (length (generateFallbackQueries question schema))) ultimate_fallback = Inr r"
  shows "\<exists>res. after_generated run question schema vars ev
            = (Inr res, ev @ map (\<lambda>fb. Run (Cypher (cypher fb))) (generateFallbackQueries question schema)
                         @ [Run (Cypher ultimate_fallback)])
          \<and> out_result res = r \<and> out_cypher res = ultimate_fallback"
proof -
  from assms(1) have "\<forall>i<length (generateFallbackQueries question schema).
             isl (run (1 + i) (cypher (generateFallbackQueries question schema ! i)))"
    by simp
  from fallback_loop_all_fail [OF this, of vars ev] assms(2) assms(3) show ?thesis
    by (auto simp: after_generated_def)
qed

lemma processQuery_generated_accepted:
  assumes "translate (make_prompt schema question) = Inr content"
    and "run 0 (clean (case content of None \<Rightarrow> [] | Some c \<Rightarrow> c)) = Inr r"
    and "records r \<noteq> []"
  shows "fst (processQuery translate run question schema)
           = Inr \<lparr>out_cypher = clean (case content of None \<Rightarrow> [] | Some c \<Rightarrow> c), out_result = r,
                  out_attempts = [\<lparr>attempt_cypher = clean (case content of None \<Rightarrow> [] | Some c \<Rightarrow> c),
                                   source = ''AI''\<rparr>]\<rparr>"
  using assms by (simp add: processQuery_def resolve_def Let_def)

lemma processQuery_ultimate_after_error:
  assumes "translate (make_prompt schema question) = Inr content"
    and "run 0 (clean (case content of None \<Rightarrow> [] | Some c \<Rightarrow> c)) = Inl e"
    and "\<forall>i<length (generateFallbackQueries question schema).
             isl (run (Suc i) (cypher (generateFallbackQueries question schema ! i)))"
    and "run (Suc (length (generateFallbackQueries question schema))) ultimate_fallback = Inr r"
  shows "\<exists>res. fst (processQuery translate run question schema) = Inr res
           \<and> out_result res = r \<and> out_cypher res = ultimate_fallback"
proof -
  let ?c = "clean (case content of None \<Rightarrow> [] | Some c \<Rightarrow> c)"
  let ?vars = "\<lparr>cur_cypher = ?c, cur_result = None,
                cur_attempts = [\<lparr>attempt_cypher = ?c, source = ''AI''\<rparr>]\<rparr>"
  let ?ev = "[Translate (make_prompt schema question), Run (Cypher ?c)]"
  from after_generated_ultimate [OF assms(3) _ assms(4), of ?vars ?ev]
  obtain res where "after_generated run question schema ?vars ?ev
            = (Inr res, ?ev @ map (\<lambda>fb. Run (Cypher (cypher fb))) (generateFallbackQueries question schema)
                         @ [Run (Cypher ultimate_fallback)])"
      "out_result res = r" "out_cypher res = ultimate_fallback"
    by auto
  with assms(1) assms(2) show ?thesis
    by (simp add: processQuery_def resolve_def Let_def)
qed

text \<open>
  Claim C1 does not hold of the code. When the generated query runs and returns no row, its
  result stays in \<open>result\<close>; if then every fallback candidate raises, or there is none,
  the test \<open>!result\<close> fails and the ultimate fallback is not run: \<open>processQuery\<close> returns
  the generated query with its empty result, the attempts are the generated query and the
  candidates, and the queries run in the session are those and no other.
\<close>

theorem generated_empty_result_kept:
  "translate (make_prompt schema question) = Inr content
   \<and> run 0 (clean (case content of None \<Rightarrow> [] | Some c \<Rightarrow> c)) = Inr r
   \<and> records r = []
   \<and> (\<forall>i<length (generateFallbackQueries question schema).
         isl (run (Suc i) (cypher (generateFallbackQueries question schema ! i))))
   \<longrightarrow> (\<exists>res. fst (processQuery translate run question schema) = Inr res
          \<and> out_result res = r
          \<and> out_cypher res = clean (case content of None \<Rightarrow> [] | Some c \<Rightarrow> c)
          \<and> map source (out_attempts res)
              = ''AI'' # map strategy (generateFallbackQueries question schema))
       \<and> snd (processQuery translate run question schema)
           = SessionOpen # Translate (make_prompt schema question)
             # Run (Cypher (clean (case content of None \<Rightarrow> [] | Some c \<Rightarrow> c)))
             # map (\<lambda>fb. Run (Cypher (cypher fb))) (generateFallbackQueries question schema)
             @ [SessionClose]"
proof
  let ?c = "clean (case content of None \<Rightarrow> [] | Some c \<Rightarrow> c)"
  let ?vars = "\<lparr>cur_cypher = ?c, cur_result = Some r,
                cur_attempts = [\<lparr>attempt_cypher = ?c, source = ''AI''\<rparr>]\<rparr>"
  let ?ev = "[Translate (make_prompt schema question), Run (Cypher ?c)]"
  assume h: "translate (make_prompt schema question) = Inr content
   \<and> run 0 ?c = Inr r \<and> records r = []
   \<and> (\<forall>i<length (generateFallbackQueries question schema).
         isl (run (Suc i) (cypher (generateFallbackQueries question schema ! i))))"
  then have all: "\<forall>i<length (generateFallbackQueries question schema).
         isl (run (Suc i) (cypher (generateFallbackQueries question schema ! i)))"
    by blast
  from after_generated_all_fail [OF all, of ?vars r ?ev]
  obtain res where res: "after_generated run question schema ?vars ?ev
            = (Inr res, ?ev @ map (\<lambda>fb. Run (Cypher (cypher fb))) (generateFallbackQueries question schema))"
      "out_result res = r" "out_cypher res = cur_cypher ?vars"
      "map source (out_attempts res)
              = map source (cur_attempts ?vars) @ map strategy (generateFallbackQueries question schema)"
    by auto
  from h res(1) have pq: "processQuery translate run question schema
      = (Inr res, SessionOpen # (?ev @ map (\<lambda>fb. Run (Cypher (cypher fb))) (generateFallbackQueries question schema))
                  @ [SessionClose])"
    by (simp add: processQuery_def resolve_def Let_def)
  from pq res show "(\<exists>res. fst (processQuery translate run question schema) = Inr res
          \<and> out_result res = r
          \<and> out_cypher res = ?c
          \<and> map source (out_attempts res)
              = ''AI'' # map strategy (generateFallbackQueries question schema))
       \<and> snd (processQuery translate run question schema)
           = SessionOpen # Translate (make_prompt schema question)
             # Run (Cypher ?c)
             # map (\<lambda>fb. Run (Cypher (cypher fb))) (generateFallbackQueries question schema)
             @ [SessionClose]"
    by simp
qed

lemma fallbacks_how_many:
  "generateFallbackQueries ''how many doors'' door_schema =
     [\<lparr>strategy = ''count_door'',
       cypher = ''MATCH (n) WHERE any(label IN labels(n) WHERE label CONTAINS '' @ [CHR 0x27]
                @ ''Door'' @ [CHR 0x27] @ '') RETURN count(n) AS count''\<rparr>,
      \<lparr>strategy = ''exact_count_IfcDoor'',
       cypher = ''MATCH (n:`IfcDoor`) RETURN count(n) AS count''\<rparr>,
      \<lparr>strategy = ''count_all_elements'',
       cypher = ''MATCH (n) WHERE any(label IN labels(n) WHERE label STARTS WITH 'Ifc') RETURN count(n) AS count''\<rparr>]"
proof -
  have l: "toLowerCase ''how many doors'' = ''how many doors''" by (simp add: toLowerCase_def)
  have d: "toLowerCase ''Door'' = ''door''" by (simp add: toLowerCase_def)
  have w: "wants_count ''how many doors'' \<and> \<not> wants_list ''how many doors''"
    by (simp add: wants_count_def wants_list_def str_includes_def sublist_code)
  have s: "scan_concepts ''how many doors'' door_schema concepts
     = flexible ''how many doors'' \<lparr>c_keywords = [''door'', ''doors''], c_labels = [''Door'']\<rparr>
       @ exact ''how many doors'' door_schema [''Door'']"
    by (simp add: concepts_def concept_matches_def str_includes_def sublist_code)
  have m: "map_of (labels door_schema) ''IfcDoor'' \<noteq> None" by (simp add: door_schema_def)
  from w d m show ?thesis
    by (simp add: generateFallbackQueries_def l s flexible_def exact_candidate_def general_def
        labelCondition_def)
qed

text \<open>
  The theorem at the question \<open>how many doors\<close>, a translator whose query matches nothing
  and a database that rejects every query after the first: the three candidates are tried
  and raise, the ultimate fallback is not among the queries run, and the empty result of
  the generated query is returned.
\<close>

theorem generated_empty_result_kept_witness:
  "translator_limit0 (make_prompt door_schema ''how many doors'') = Inr (Some ''MATCH (n) RETURN n LIMIT 0'')
   \<and> only_first_runs 0 (clean ''MATCH (n) RETURN n LIMIT 0'') = Inr \<lparr>records = []\<rparr>
   \<and> map strategy (generateFallbackQueries ''how many doors'' door_schema)
       = [''count_door'', ''exact_count_IfcDoor'', ''count_all_elements'']
   \<and> list_all (\<lambda>fb. isl (only_first_runs 1 (cypher fb)) \<and> isl (only_first_runs 2 (cypher fb))
                     \<and> isl (only_first_runs 3 (cypher fb)))
        (generateFallbackQueries ''how many doors'' door_schema)
   \<and> (\<exists>res. fst (processQuery translator_limit0 only_first_runs ''how many doors'' door_schema) = Inr res
          \<and> out_result res = \<lparr>records = []\<rparr>
          \<and> out_cypher res = ''MATCH (n) RETURN n LIMIT 0''
          \<and> map source (out_attempts res)
              = [''AI'', ''count_door'', ''exact_count_IfcDoor'', ''count_all_elements''])
   \<and> Run (Cypher ultimate_fallback)
        \<notin> set (snd (processQuery translator_limit0 only_first_runs ''how many doors'' door_schema))"
proof -
  have a: "translator_limit0 (make_prompt door_schema ''how many doors'') = Inr (Some ''MATCH (n) RETURN n LIMIT 0'')"
    by (simp add: translator_limit0_def)
  have b: "only_first_runs 0 (clean ''MATCH (n) RETURN n LIMIT 0'') = Inr \<lparr>records = []\<rparr>"
    by (simp add: only_first_runs_def)
  have c: "\<forall>i<length (generateFallbackQueries ''how many doors'' door_schema).
         isl (only_first_runs (Suc i) (cypher (generateFallbackQueries ''how many doors'' door_schema ! i)))"
    by (simp add: only_first_runs_def)
  have d: "list_all (\<lambda>fb. isl (only_first_runs 1 (cypher fb)) \<and> isl (only_first_runs 2 (cypher fb))
                     \<and> isl (only_first_runs 3 (cypher fb)))
        (generateFallbackQueries ''how many doors'' door_schema)"
    by (simp add: only_first_runs_def list_all_iff)
  note T = generated_empty_result_kept [where translate = translator_limit0 and run = only_first_runs
      and question = "''how many doors''" and schema = door_schema
      and content = "Some ''MATCH (n) RETURN n LIMIT 0''" and r = "\<lparr>records = []\<rparr>"]
  from T a b c have e: "(\<exists>res. fst (processQuery translator_limit0 only_first_runs ''how many doors'' door_schema) = Inr res
          \<and> out_result res = \<lparr>records = []\<rparr>
          \<and> out_cypher res = ''MATCH (n) RETURN n LIMIT 0''
          \<and> map source (out_attempts res)
              = ''AI'' # map strategy (generateFallbackQueries ''how many doors'' door_schema))"
    by (simp add: clean_limit0)
  from T a b c have f: "snd (processQuery translator_limit0 only_first_runs ''how many doors'' door_schema)
           = SessionOpen # Translate (make_prompt door_schema ''how many doors'')
             # Run (Cypher ''MATCH (n) RETURN n LIMIT 0'')
             # map (\<lambda>fb. Run (Cypher (cypher fb))) (generateFallbackQueries ''how many doors'' door_schema)
             @ [SessionClose]"
    by (simp add: clean_limit0)
  have g: "map strategy (generateFallbackQueries ''how many doors'' door_schema)
       = [''count_door'', ''exact_count_IfcDoor'', ''count_all_elements'']"
    by (simp add: fallbacks_how_many)
  have h: "Run (Cypher ultimate_fallback)
        \<notin> set (snd (processQuery translator_limit0 only_first_runs ''how many doors'' door_schema))"
    by (simp add: f fallbacks_how_many ultimate_fallback_def)
  from a b d e g h show ?thesis by simp
qed

text \<open>
  Claim C2 does not hold of the code in one case. The result of the generated query is
  returned when it has a row, and the first fallback candidate that runs is accepted with
  any number of rows; but the result of a generated query without rows is also what
  \<open>processQuery\<close> returns when no fallback candidate runs. For the question \<open>hello\<close>,
  which has no candidate, the empty result of the generated query is the final result.
\<close>

theorem generated_empty_result_final:
  "fst (processQuery translator_limit0 always_empty ''hello'' door_schema)
     = Inr \<lparr>out_cypher = ''MATCH (n) RETURN n LIMIT 0'', out_result = \<lparr>records = []\<rparr>,
            out_attempts = [\<lparr>attempt_cypher = ''MATCH (n) RETURN n LIMIT 0'', source = ''AI''\<rparr>]\<rparr>
   \<and> always_empty 0 ''MATCH (n) RETURN n LIMIT 0'' = Inr \<lparr>records = []\<rparr>
   \<and> generateFallbackQueries ''hello'' door_schema = []"
  by (simp add: processQuery_hello always_empty_def fallbacks_hello)

end
